theory Spec2Isabelle
  imports Main "HOL-Library.Word"
begin

section \<open>Data model of Input.c\<close>

text \<open>
  The library keeps its state in file-level variables: an initialized flag, the
  keyboard-block flag, the cursor flag and position, one hook list per raw event type
  and six bind lists. Hook and bind records are heap nodes of intrusive lists.

  Machine types: \<open>uint32\<close>, \<open>int16\<close> and \<open>uint8\<close> are words of that width (signed values
  are read with \<open>sint\<close>). A function pointer is the number of the function it points to,
  compared with \<open>=\<close> as the C code compares with \<open>==\<close>. A data pointer is an address,
  \<open>NULL\<close> is address 0.
\<close>

type_synonym uint32 = "32 word"
type_synonym int16 = "16 word"
type_synonym uint8 = "8 word"
type_synonym addr = nat
type_synonym input_handler_t = nat
type_synonym keybind_func_t = nat
type_synonym mousebind_func_t = nat
type_synonym INPUT_EVENT = nat
type_synonym MOUSEBTN = "32 word"
type_synonym MOUSEWHEEL = "32 word"

definition NULL :: addr where
  "NULL = 0"

text \<open>
  Modelled from the spec: the enumerator \<open>MOUSE_NONE\<close> of \<open>MOUSEBTN\<close> is declared in
  Input.h, which is not in the source. It is the button stored in, and passed to the
  handlers of, mouse-move binds; no proof below unfolds its value.
\<close>

definition MOUSE_NONE :: MOUSEBTN where
  "MOUSE_NONE = 0"

datatype BINDTYPE_KB = BIND_KEYUP | BIND_KEYDOWN | BIND_CHAR

datatype BINDTYPE_MOUSE = BIND_BTNUP | BIND_BTNDOWN | BIND_MOVE

text \<open>
  Modelled from the spec: \<open>rectangle_t\<close> and \<open>rect_is_point_in\<close> belong to the geometry
  collaborator and are not in the source. The spec writes a rectangle by its two
  corners, \<open>[0,0]-[10,10]\<close>, and says that containment is closed on the rectangle's
  edges (point-in-rectangle, inclusive).
\<close>

record rectangle_t =
  r_left :: int16
  r_top :: int16
  r_right :: int16
  r_bottom :: int16

definition rect_is_point_in :: "rectangle_t \<Rightarrow> int16 \<Rightarrow> int16 \<Rightarrow> bool" where
  "rect_is_point_in r x y =
     (sint (r_left r) \<le> sint x \<and> sint x \<le> sint (r_right r) \<and>
      sint (r_top r) \<le> sint y \<and> sint y \<le> sint (r_bottom r))"

text \<open>
  Modelled from the spec: \<open>InputEvent\<close> is declared in Input.h, which is not in the
  source. The keyboard path fills in \<open>type\<close> and \<open>keyboard.key\<close>, the mouse path \<open>type\<close>
  and the six \<open>mouse\<close> members; \<open>dx\<close> and \<open>dy\<close> are taken to have the type of \<open>x\<close> and
  \<open>y\<close>, \<open>button\<close> and \<open>wheel\<close> the \<open>uint8\<close> that the source casts to.
\<close>

datatype InputEvent =
    KeyboardEvent INPUT_EVENT uint32
  | MouseEvent INPUT_EVENT int16 int16 int16 int16 uint8 uint8

record InputHookFunc =
  hook_handler :: input_handler_t

record KeyBind =
  kb_type :: BINDTYPE_KB
  kb_key :: uint32
  kb_handler :: keybind_func_t
  kb_userdata :: addr

record MouseBind =
  mb_type :: BINDTYPE_MOUSE
  mb_bounds :: rectangle_t
  mb_button :: MOUSEBTN
  mb_handler :: mousebind_func_t
  mb_userdata :: addr

text \<open>
  The state. A \<open>list_t*\<close> variable is \<open>None\<close> when it is \<open>NULL\<close>. The hook lists hold
  their records by value: no pointer to a hook record ever leaves Input.c. Bind records
  are handed out as \<open>KeyBind*\<close> and \<open>MouseBind*\<close> handles, so they live in two typed
  heaps and the bind lists hold their addresses, in list order. \<open>heap_top\<close> is the state
  of the allocator.

  \<open>NUM_INPUT_EVENTS\<close> is declared in Input.h, which is not in the source; it is the
  declared length of the array \<open>input_hooks\<close>, and the model reads it off that array.
\<close>

record input_state =
  input_initialized :: bool
  block_keys :: bool
  show_cursor :: bool
  mouse_x :: int16
  mouse_y :: int16
  input_hooks :: "InputHookFunc list option list"
  char_binds :: "addr list option"
  key_up_binds :: "addr list option"
  key_down_binds :: "addr list option"
  mouse_up_binds :: "addr list option"
  mouse_down_binds :: "addr list option"
  mouse_move_binds :: "addr list option"
  key_heap :: "addr \<rightharpoonup> KeyBind"
  mouse_heap :: "addr \<rightharpoonup> MouseBind"
  heap_top :: addr

definition NUM_INPUT_EVENTS :: "input_state \<Rightarrow> nat" where
  "NUM_INPUT_EVENTS s = length (input_hooks s)"

text \<open>
  What C leaves undefined is an error value of the model: reading through \<open>NULL\<close>, and
  reading or freeing an address that holds no record (a dangling handle).
\<close>

datatype error = NullDeref | InvalidPointer

definition bindE :: "error + 'a \<Rightarrow> ('a \<Rightarrow> error + 'b) \<Rightarrow> error + 'b" where
  "bindE m f = (case m of Inl e \<Rightarrow> Inl e | Inr v \<Rightarrow> f v)"

subsection \<open>Handlers\<close>

text \<open>
  Handlers are application code behind function pointers. A call names the function
  and carries the arguments the library passes. The application is a parameter of every
  dispatch function: given a call, the library state at the moment of the call (which a
  handler can read, for instance through \<open>input_get_cursor_pos\<close>) and the application's
  own state \<open>'w\<close>, it gives the handler's return value and the application's next state.
  Handlers that call back into the registration or removal functions while a dispatch is
  running are outside this model: the traversal macros of Types/List.h are not in the
  source.
\<close>

datatype call =
    HookCall input_handler_t InputEvent
  | KeyBindCall keybind_func_t uint32 addr
  | MouseBindCall mousebind_func_t MOUSEBTN int16 int16 addr

type_synonym 'w app = "call \<Rightarrow> input_state \<Rightarrow> 'w \<Rightarrow> bool \<times> 'w"

text \<open>
  To speak about which handlers a dispatch invokes, and in which order, an application
  is wrapped so that it appends every call it receives to a log, with the cursor
  position the library reports at that moment and the value the handler returns.
\<close>

record trace_entry =
  te_call :: call
  te_cursor :: "int16 \<times> int16"
  te_result :: bool

definition logged :: "'w app \<Rightarrow> ('w \<times> trace_entry list) app" where
  "logged app c s wl =
     (case app c s (fst wl) of
        (r, w') \<Rightarrow>
          (r, (w', snd wl @ [\<lparr>te_call = c, te_cursor = (mouse_x s, mouse_y s), te_result = r\<rparr>])))"

section \<open>Lifecycle\<close>

text \<open>
  Modelled from the spec: \<open>list_create\<close>, \<open>list_push\<close>, \<open>list_remove\<close>, \<open>list_empty\<close>,
  \<open>list_foreach\<close> and \<open>list_foreach_safe\<close> come from Types/List.h, and \<open>mem_alloc_clean\<close>
  and \<open>mem_free\<close> from Platform/Alloc.h; neither file is in the source. A list is
  created empty, \<open>list_push\<close> appends (insertion order is dispatch order, first
  registered first called), both traversals run from the first node to the last, and an
  allocation returns an address that was never used before and is not \<open>NULL\<close>.
  \<open>input_platform_initialize\<close> and \<open>input_platform_shutdown\<close> (InputSys.h) subscribe to
  the window system and are taken to leave the variables of Input.c alone.
\<close>

definition list_create :: "'a list option" where
  "list_create = Some []"

definition list_push :: "'a list \<Rightarrow> 'a \<Rightarrow> 'a list" where
  "list_push xs n = xs @ [n]"

definition mem_alloc_clean :: "input_state \<Rightarrow> addr \<times> input_state" where
  "mem_alloc_clean s = (Suc (heap_top s), s\<lparr>heap_top := Suc (heap_top s)\<rparr>)"

definition input_initialize :: "addr \<Rightarrow> input_state \<Rightarrow> input_state" where
  "input_initialize window s =
     (if window = NULL then s
      else s\<lparr>input_hooks := map (\<lambda>_. list_create) (input_hooks s),
             char_binds := list_create,
             key_up_binds := list_create,
             key_down_binds := list_create,
             mouse_up_binds := list_create,
             mouse_down_binds := list_create,
             mouse_move_binds := list_create,
             input_initialized := True\<rparr>)"

text \<open>
  \<open>input_cleanup_list\<close> unlinks and frees every node of a list and destroys the list.
  It is given the heap the nodes live in and returns that heap without them.
\<close>

fun free_nodes :: "addr list \<Rightarrow> (addr \<rightharpoonup> 'a) \<Rightarrow> error + (addr \<rightharpoonup> 'a)" where
  "free_nodes [] h = Inr h"
| "free_nodes (n # ns) h =
     (case h n of
        None \<Rightarrow> Inl InvalidPointer
      | Some _ \<Rightarrow> free_nodes ns (h(n := None)))"

definition input_cleanup_list :: "addr list option \<Rightarrow> (addr \<rightharpoonup> 'a) \<Rightarrow> error + (addr \<rightharpoonup> 'a)" where
  "input_cleanup_list list h =
     (case list of
        None \<Rightarrow> Inl NullDeref
      | Some ns \<Rightarrow> free_nodes ns h)"

definition input_shutdown :: "input_state \<Rightarrow> error + input_state" where
  "input_shutdown s =
     (if \<not> input_initialized s then Inr s
      else
        bindE (input_cleanup_list (char_binds s) (key_heap s)) (\<lambda>kh1.
        bindE (input_cleanup_list (key_up_binds s) kh1) (\<lambda>kh2.
        bindE (input_cleanup_list (key_down_binds s) kh2) (\<lambda>kh3.
        bindE (input_cleanup_list (mouse_up_binds s) (mouse_heap s)) (\<lambda>mh1.
        bindE (input_cleanup_list (mouse_down_binds s) mh1) (\<lambda>mh2.
        bindE (input_cleanup_list (mouse_move_binds s) mh2) (\<lambda>mh3.
          Inr (s\<lparr>input_hooks := map (\<lambda>_. None) (input_hooks s),
                 char_binds := None,
                 key_up_binds := None,
                 key_down_binds := None,
                 mouse_up_binds := None,
                 mouse_down_binds := None,
                 mouse_move_binds := None,
                 key_heap := kh3,
                 mouse_heap := mh3,
                 input_initialized := False\<rparr>))))))))"

section \<open>Hook store\<close>

definition input_add_hook :: "INPUT_EVENT \<Rightarrow> input_handler_t \<Rightarrow> input_state \<Rightarrow> error + input_state" where
  "input_add_hook event_id handler s =
     (if \<not> input_initialized s then Inr s
      else if event_id \<ge> NUM_INPUT_EVENTS s then Inr s
      else
        (case input_hooks s ! event_id of
           None \<Rightarrow> Inl NullDeref
         | Some hs \<Rightarrow>
             Inr (s\<lparr>input_hooks :=
                      (input_hooks s)[event_id := Some (list_push hs \<lparr>hook_handler = handler\<rparr>)]\<rparr>)))"

text \<open>The loop of \<open>input_remove_hook\<close>: unlink and free the first match, then return.\<close>

fun remove_hook_loop :: "input_handler_t \<Rightarrow> InputHookFunc list \<Rightarrow> InputHookFunc list" where
  "remove_hook_loop handler [] = []"
| "remove_hook_loop handler (hook # hs) =
     (if handler = hook_handler hook then hs
      else hook # remove_hook_loop handler hs)"

definition input_remove_hook :: "INPUT_EVENT \<Rightarrow> input_handler_t \<Rightarrow> input_state \<Rightarrow> error + input_state" where
  "input_remove_hook event_id handler s =
     (if \<not> input_initialized s then Inr s
      else if event_id \<ge> NUM_INPUT_EVENTS s then Inr s
      else
        (case input_hooks s ! event_id of
           None \<Rightarrow> Inl NullDeref
         | Some hs \<Rightarrow>
             Inr (s\<lparr>input_hooks :=
                      (input_hooks s)[event_id := Some (remove_hook_loop handler hs)]\<rparr>)))"

section \<open>Bind store\<close>

text \<open>
  The \<open>switch\<close> on the bind type picks the list; \<open>key_bindlist_update\<close> and
  \<open>mouse_bindlist_update\<close> are the writes through the pointer \<open>bindlist\<close> it yields.
\<close>

definition key_bindlist :: "BINDTYPE_KB \<Rightarrow> input_state \<Rightarrow> addr list option" where
  "key_bindlist type s =
     (case type of
        BIND_CHAR \<Rightarrow> char_binds s
      | BIND_KEYUP \<Rightarrow> key_up_binds s
      | BIND_KEYDOWN \<Rightarrow> key_down_binds s)"

definition key_bindlist_update :: "BINDTYPE_KB \<Rightarrow> addr list \<Rightarrow> input_state \<Rightarrow> input_state" where
  "key_bindlist_update type ns s =
     (case type of
        BIND_CHAR \<Rightarrow> s\<lparr>char_binds := Some ns\<rparr>
      | BIND_KEYUP \<Rightarrow> s\<lparr>key_up_binds := Some ns\<rparr>
      | BIND_KEYDOWN \<Rightarrow> s\<lparr>key_down_binds := Some ns\<rparr>)"

definition mouse_bindlist :: "BINDTYPE_MOUSE \<Rightarrow> input_state \<Rightarrow> addr list option" where
  "mouse_bindlist type s =
     (case type of
        BIND_MOVE \<Rightarrow> mouse_move_binds s
      | BIND_BTNUP \<Rightarrow> mouse_up_binds s
      | BIND_BTNDOWN \<Rightarrow> mouse_down_binds s)"

definition mouse_bindlist_update :: "BINDTYPE_MOUSE \<Rightarrow> addr list \<Rightarrow> input_state \<Rightarrow> input_state" where
  "mouse_bindlist_update type ns s =
     (case type of
        BIND_MOVE \<Rightarrow> s\<lparr>mouse_move_binds := Some ns\<rparr>
      | BIND_BTNUP \<Rightarrow> s\<lparr>mouse_up_binds := Some ns\<rparr>
      | BIND_BTNDOWN \<Rightarrow> s\<lparr>mouse_down_binds := Some ns\<rparr>)"

subsection \<open>Registration\<close>

definition input_add_key_bind ::
  "uint32 \<Rightarrow> keybind_func_t \<Rightarrow> addr \<Rightarrow> BINDTYPE_KB \<Rightarrow> input_state \<Rightarrow> addr \<times> input_state" where
  "input_add_key_bind key func data type s =
     (if \<not> input_initialized s then (NULL, s)
      else
        (case key_bindlist type s of
           None \<Rightarrow> (NULL, s)
         | Some ns \<Rightarrow>
             (case mem_alloc_clean s of
                (bind, s1) \<Rightarrow>
                  (bind,
                   key_bindlist_update type (list_push ns bind)
                     (s1\<lparr>key_heap := (key_heap s1)(bind \<mapsto>
                        \<lparr>kb_type = type, kb_key = key, kb_handler = func, kb_userdata = data\<rparr>)\<rparr>)))))"

definition input_add_char_bind :: "uint32 \<Rightarrow> keybind_func_t \<Rightarrow> addr \<Rightarrow> input_state \<Rightarrow> addr \<times> input_state" where
  "input_add_char_bind key func data s = input_add_key_bind key func data BIND_CHAR s"

definition input_add_key_up_bind :: "uint32 \<Rightarrow> keybind_func_t \<Rightarrow> addr \<Rightarrow> input_state \<Rightarrow> addr \<times> input_state" where
  "input_add_key_up_bind key func data s = input_add_key_bind key func data BIND_KEYUP s"

definition input_add_key_down_bind :: "uint32 \<Rightarrow> keybind_func_t \<Rightarrow> addr \<Rightarrow> input_state \<Rightarrow> addr \<times> input_state" where
  "input_add_key_down_bind key func data s = input_add_key_bind key func data BIND_KEYDOWN s"

text \<open>
  The rectangle is passed by pointer and copied into the record; the model takes the
  rectangle the pointer points to.
\<close>

definition input_add_mouse_bind ::
  "MOUSEBTN \<Rightarrow> rectangle_t \<Rightarrow> mousebind_func_t \<Rightarrow> addr \<Rightarrow> BINDTYPE_MOUSE \<Rightarrow> input_state
     \<Rightarrow> addr \<times> input_state" where
  "input_add_mouse_bind button area func data type s =
     (if \<not> input_initialized s then (NULL, s)
      else
        (case mouse_bindlist type s of
           None \<Rightarrow> (NULL, s)
         | Some ns \<Rightarrow>
             (case mem_alloc_clean s of
                (bind, s1) \<Rightarrow>
                  (bind,
                   mouse_bindlist_update type (list_push ns bind)
                     (s1\<lparr>mouse_heap := (mouse_heap s1)(bind \<mapsto>
                        \<lparr>mb_type = type, mb_bounds = area, mb_button = button,
                         mb_handler = func, mb_userdata = data\<rparr>)\<rparr>)))))"

definition input_add_mouse_move_bind ::
  "rectangle_t \<Rightarrow> mousebind_func_t \<Rightarrow> addr \<Rightarrow> input_state \<Rightarrow> addr \<times> input_state" where
  "input_add_mouse_move_bind area func data s = input_add_mouse_bind MOUSE_NONE area func data BIND_MOVE s"

definition input_add_mousebtn_up_bind ::
  "MOUSEBTN \<Rightarrow> rectangle_t \<Rightarrow> mousebind_func_t \<Rightarrow> addr \<Rightarrow> input_state \<Rightarrow> addr \<times> input_state" where
  "input_add_mousebtn_up_bind button area func data s = input_add_mouse_bind button area func data BIND_BTNUP s"

definition input_add_mousebtn_down_bind ::
  "MOUSEBTN \<Rightarrow> rectangle_t \<Rightarrow> mousebind_func_t \<Rightarrow> addr \<Rightarrow> input_state \<Rightarrow> addr \<times> input_state" where
  "input_add_mousebtn_down_bind button area func data s = input_add_mouse_bind button area func data BIND_BTNDOWN s"

subsection \<open>Removal\<close>

text \<open>
  The loop of \<open>input_remove_key_bind_from_list\<close> visits every node of the list
  (\<open>list_foreach_safe\<close>), reads the record at the node and, where the test holds, unlinks
  the node and frees the record. It returns the nodes left in the list, in order, and
  the heap.
\<close>

fun remove_key_loop ::
  "uint32 \<Rightarrow> keybind_func_t \<Rightarrow> addr list \<Rightarrow> (addr \<rightharpoonup> KeyBind) \<Rightarrow> error + (addr list \<times> (addr \<rightharpoonup> KeyBind))" where
  "remove_key_loop key func [] h = Inr ([], h)"
| "remove_key_loop key func (node # ns) h =
     (case h node of
        None \<Rightarrow> Inl InvalidPointer
      | Some bind \<Rightarrow>
          if kb_key bind = key \<and> kb_handler bind = func
          then remove_key_loop key func ns (h(node := None))
          else bindE (remove_key_loop key func ns h) (\<lambda>(ns', h'). Inr (node # ns', h')))"

definition input_remove_key_bind_from_list ::
  "uint32 \<Rightarrow> keybind_func_t \<Rightarrow> BINDTYPE_KB \<Rightarrow> input_state \<Rightarrow> error + input_state" where
  "input_remove_key_bind_from_list key func type s =
     (if \<not> input_initialized s then Inr s
      else
        (case key_bindlist type s of
           None \<Rightarrow> Inr s
         | Some ns \<Rightarrow>
             bindE (remove_key_loop key func ns (key_heap s)) (\<lambda>(ns', h').
               Inr (key_bindlist_update type ns' (s\<lparr>key_heap := h'\<rparr>)))))"

definition input_remove_char_bind :: "uint32 \<Rightarrow> keybind_func_t \<Rightarrow> input_state \<Rightarrow> error + input_state" where
  "input_remove_char_bind key func s = input_remove_key_bind_from_list key func BIND_CHAR s"

definition input_remove_key_up_bind :: "uint32 \<Rightarrow> keybind_func_t \<Rightarrow> input_state \<Rightarrow> error + input_state" where
  "input_remove_key_up_bind key func s = input_remove_key_bind_from_list key func BIND_KEYUP s"

definition input_remove_key_down_bind :: "uint32 \<Rightarrow> keybind_func_t \<Rightarrow> input_state \<Rightarrow> error + input_state" where
  "input_remove_key_down_bind key func s = input_remove_key_bind_from_list key func BIND_KEYDOWN s"

text \<open>
  \<open>input_remove_key_bind\<close> reads \<open>bind->key\<close>, \<open>bind->handler\<close> and \<open>bind->type\<close> to build
  the arguments of the call, before any check.
\<close>

definition input_remove_key_bind :: "addr \<Rightarrow> input_state \<Rightarrow> error + input_state" where
  "input_remove_key_bind bind s =
     (if bind = NULL then Inl NullDeref
      else
        (case key_heap s bind of
           None \<Rightarrow> Inl InvalidPointer
         | Some b \<Rightarrow> input_remove_key_bind_from_list (kb_key b) (kb_handler b) (kb_type b) s))"

fun remove_mouse_loop ::
  "MOUSEBTN \<Rightarrow> mousebind_func_t \<Rightarrow> addr list \<Rightarrow> (addr \<rightharpoonup> MouseBind)
     \<Rightarrow> error + (addr list \<times> (addr \<rightharpoonup> MouseBind))" where
  "remove_mouse_loop button func [] h = Inr ([], h)"
| "remove_mouse_loop button func (node # ns) h =
     (case h node of
        None \<Rightarrow> Inl InvalidPointer
      | Some bind \<Rightarrow>
          if mb_button bind = button \<and> mb_handler bind \<noteq> func
          then remove_mouse_loop button func ns (h(node := None))
          else bindE (remove_mouse_loop button func ns h) (\<lambda>(ns', h'). Inr (node # ns', h')))"

definition input_remove_mouse_bind_from_list ::
  "MOUSEBTN \<Rightarrow> mousebind_func_t \<Rightarrow> BINDTYPE_MOUSE \<Rightarrow> input_state \<Rightarrow> error + input_state" where
  "input_remove_mouse_bind_from_list button func type s =
     (if \<not> input_initialized s then Inr s
      else
        (case mouse_bindlist type s of
           None \<Rightarrow> Inr s
         | Some ns \<Rightarrow>
             bindE (remove_mouse_loop button func ns (mouse_heap s)) (\<lambda>(ns', h').
               Inr (mouse_bindlist_update type ns' (s\<lparr>mouse_heap := h'\<rparr>)))))"

definition input_remove_mouse_move_bind :: "mousebind_func_t \<Rightarrow> input_state \<Rightarrow> error + input_state" where
  "input_remove_mouse_move_bind func s = input_remove_mouse_bind_from_list MOUSE_NONE func BIND_MOVE s"

definition input_remove_mousebtn_up_bind :: "MOUSEBTN \<Rightarrow> mousebind_func_t \<Rightarrow> input_state \<Rightarrow> error + input_state" where
  "input_remove_mousebtn_up_bind button func s = input_remove_mouse_bind_from_list button func BIND_BTNUP s"

definition input_remove_mousebtn_down_bind :: "MOUSEBTN \<Rightarrow> mousebind_func_t \<Rightarrow> input_state \<Rightarrow> error + input_state" where
  "input_remove_mousebtn_down_bind button func s = input_remove_mouse_bind_from_list button func BIND_BTNDOWN s"

definition input_remove_mouse_bind :: "addr \<Rightarrow> input_state \<Rightarrow> error + input_state" where
  "input_remove_mouse_bind bind s =
     (if bind = NULL then Inl NullDeref
      else
        (case mouse_heap s bind of
           None \<Rightarrow> Inl InvalidPointer
         | Some b \<Rightarrow> input_remove_mouse_bind_from_list (mb_button b) (mb_handler b) (mb_type b) s))"

subsection \<open>Mutators of a mouse bind\<close>

definition input_set_mousebind_button :: "addr \<Rightarrow> MOUSEBTN \<Rightarrow> input_state \<Rightarrow> error + input_state" where
  "input_set_mousebind_button bind button s =
     (if bind = NULL then Inr s
      else
        (case mouse_heap s bind of
           None \<Rightarrow> Inl InvalidPointer
         | Some b \<Rightarrow> Inr (s\<lparr>mouse_heap := (mouse_heap s)(bind \<mapsto> b\<lparr>mb_button := button\<rparr>)\<rparr>)))"

definition input_set_mousebind_rect :: "addr \<Rightarrow> rectangle_t \<Rightarrow> input_state \<Rightarrow> error + input_state" where
  "input_set_mousebind_rect bind area s =
     (if bind = NULL then Inr s
      else
        (case mouse_heap s bind of
           None \<Rightarrow> Inl InvalidPointer
         | Some b \<Rightarrow> Inr (s\<lparr>mouse_heap := (mouse_heap s)(bind \<mapsto> b\<lparr>mb_bounds := area\<rparr>)\<rparr>)))"

definition input_set_mousebind_func :: "addr \<Rightarrow> mousebind_func_t \<Rightarrow> input_state \<Rightarrow> error + input_state" where
  "input_set_mousebind_func bind func s =
     (if bind = NULL then Inr s
      else
        (case mouse_heap s bind of
           None \<Rightarrow> Inl InvalidPointer
         | Some b \<Rightarrow> Inr (s\<lparr>mouse_heap := (mouse_heap s)(bind \<mapsto> b\<lparr>mb_handler := func\<rparr>)\<rparr>)))"

definition input_set_mousebind_param :: "addr \<Rightarrow> addr \<Rightarrow> input_state \<Rightarrow> error + input_state" where
  "input_set_mousebind_param bind data s =
     (if bind = NULL then Inr s
      else
        (case mouse_heap s bind of
           None \<Rightarrow> Inl InvalidPointer
         | Some b \<Rightarrow> Inr (s\<lparr>mouse_heap := (mouse_heap s)(bind \<mapsto> b\<lparr>mb_userdata := data\<rparr>)\<rparr>)))"

section \<open>State tracker\<close>

definition input_block_keys :: "bool \<Rightarrow> input_state \<Rightarrow> input_state" where
  "input_block_keys block s = s\<lparr>block_keys := block\<rparr>"

definition input_is_cursor_showing :: "input_state \<Rightarrow> bool" where
  "input_is_cursor_showing s = show_cursor s"

definition input_get_cursor_pos :: "input_state \<Rightarrow> int16 \<times> int16" where
  "input_get_cursor_pos s = (mouse_x s, mouse_y s)"

section \<open>Dispatcher\<close>

subsection \<open>Hook path\<close>

text \<open>
  The \<open>list_foreach\<close> loop of the two event entry points: call the hooks in list order
  and leave at the first that returns false. The result is false exactly when the loop
  was left that way.
\<close>

fun run_hooks :: "'w app \<Rightarrow> InputEvent \<Rightarrow> input_state \<Rightarrow> InputHookFunc list \<Rightarrow> 'w \<Rightarrow> bool \<times> 'w" where
  "run_hooks app event s [] w = (True, w)"
| "run_hooks app event s (hook # hs) w =
     (case app (HookCall (hook_handler hook) event) s w of
        (r, w') \<Rightarrow> if \<not> r then (False, w') else run_hooks app event s hs w')"

definition input_handle_keyboard_event ::
  "'w app \<Rightarrow> INPUT_EVENT \<Rightarrow> uint32 \<Rightarrow> input_state \<Rightarrow> 'w \<Rightarrow> error + (bool \<times> 'w)" where
  "input_handle_keyboard_event app type key s w =
     (if \<not> input_initialized s then Inr (True, w)
      else if type \<ge> NUM_INPUT_EVENTS s then Inr (True, w)
      else
        (case input_hooks s ! type of
           None \<Rightarrow> Inl NullDeref
         | Some list \<Rightarrow>
             if list = [] then Inr (True, w)
             else
               (case run_hooks app (KeyboardEvent type key) s list w of
                  (completed, w') \<Rightarrow>
                    if \<not> completed then Inr (False, w')
                    else if block_keys s then Inr (False, w')
                    else Inr (True, w'))))"

text \<open>
  The mouse entry point also writes \<open>mouse_x\<close> and \<open>mouse_y\<close>, so it returns the state.
  The casts \<open>(uint8)button\<close> and \<open>(uint8)wheel\<close> keep the low eight bits.
\<close>

definition input_handle_mouse_event ::
  "'w app \<Rightarrow> INPUT_EVENT \<Rightarrow> int16 \<Rightarrow> int16 \<Rightarrow> MOUSEBTN \<Rightarrow> MOUSEWHEEL \<Rightarrow> input_state \<Rightarrow> 'w
     \<Rightarrow> error + (bool \<times> input_state \<times> 'w)" where
  "input_handle_mouse_event app type x y button wheel s w =
     (if \<not> input_initialized s then Inr (True, s, w)
      else if type \<ge> NUM_INPUT_EVENTS s then Inr (True, s, w)
      else
        (case input_hooks s ! type of
           None \<Rightarrow> Inl NullDeref
         | Some list \<Rightarrow>
             if list = [] then Inr (True, s, w)
             else
               (let event = MouseEvent type x y (x - mouse_x s) (y - mouse_y s)
                              (ucast button) (ucast wheel);
                    s' = s\<lparr>mouse_x := x, mouse_y := y\<rparr>
                in case run_hooks app event s' list w of
                     (completed, w') \<Rightarrow> Inr (completed, s', w'))))"

subsection \<open>Bind path\<close>

text \<open>
  The \<open>list_foreach_safe\<close> loops of the six bind entry points. Each visits every node,
  reads the record at the node, calls the handler where the test of that entry point
  holds, and carries \<open>ret\<close> along. The loops of \<open>input_handle_key_down_bind\<close> and
  \<open>input_handle_key_up_bind\<close> differ only in the list they walk, and so do those of
  \<open>input_handle_mouse_up_bind\<close> and \<open>input_handle_mouse_down_bind\<close>.
\<close>

fun char_bind_loop ::
  "'w app \<Rightarrow> uint32 \<Rightarrow> input_state \<Rightarrow> addr list \<Rightarrow> bool \<Rightarrow> 'w \<Rightarrow> error + (bool \<times> 'w)" where
  "char_bind_loop app key s [] ret w = Inr (ret, w)"
| "char_bind_loop app key s (node # ns) ret w =
     (case key_heap s node of
        None \<Rightarrow> Inl InvalidPointer
      | Some bind \<Rightarrow>
          (case app (KeyBindCall (kb_handler bind) key (kb_userdata bind)) s w of
             (r, w') \<Rightarrow> char_bind_loop app key s ns (if \<not> r then False else ret) w'))"

fun key_bind_loop ::
  "'w app \<Rightarrow> uint32 \<Rightarrow> input_state \<Rightarrow> addr list \<Rightarrow> bool \<Rightarrow> 'w \<Rightarrow> error + (bool \<times> 'w)" where
  "key_bind_loop app key s [] ret w = Inr (ret, w)"
| "key_bind_loop app key s (node # ns) ret w =
     (case key_heap s node of
        None \<Rightarrow> Inl InvalidPointer
      | Some bind \<Rightarrow>
          if key = kb_key bind
          then
            (case app (KeyBindCall (kb_handler bind) key (kb_userdata bind)) s w of
               (r, w') \<Rightarrow> key_bind_loop app key s ns (if \<not> r then False else ret) w')
          else key_bind_loop app key s ns ret w)"

fun mouse_move_loop ::
  "'w app \<Rightarrow> int16 \<Rightarrow> int16 \<Rightarrow> input_state \<Rightarrow> addr list \<Rightarrow> bool \<Rightarrow> 'w \<Rightarrow> error + (bool \<times> 'w)" where
  "mouse_move_loop app x y s [] ret w = Inr (ret, w)"
| "mouse_move_loop app x y s (node # ns) ret w =
     (case mouse_heap s node of
        None \<Rightarrow> Inl InvalidPointer
      | Some bind \<Rightarrow>
          if rect_is_point_in (mb_bounds bind) x y
          then
            (case app (MouseBindCall (mb_handler bind) MOUSE_NONE x y (mb_userdata bind)) s w of
               (r, w') \<Rightarrow> mouse_move_loop app x y s ns (if \<not> r then False else ret) w')
          else mouse_move_loop app x y s ns ret w)"

fun mouse_btn_loop ::
  "'w app \<Rightarrow> MOUSEBTN \<Rightarrow> int16 \<Rightarrow> int16 \<Rightarrow> input_state \<Rightarrow> addr list \<Rightarrow> bool \<Rightarrow> 'w
     \<Rightarrow> error + (bool \<times> 'w)" where
  "mouse_btn_loop app button x y s [] ret w = Inr (ret, w)"
| "mouse_btn_loop app button x y s (node # ns) ret w =
     (case mouse_heap s node of
        None \<Rightarrow> Inl InvalidPointer
      | Some bind \<Rightarrow>
          if mb_button bind = button \<and> rect_is_point_in (mb_bounds bind) x y
          then
            (case app (MouseBindCall (mb_handler bind) button x y (mb_userdata bind)) s w of
               (r, w') \<Rightarrow> mouse_btn_loop app button x y s ns (if \<not> r then False else ret) w')
          else mouse_btn_loop app button x y s ns ret w)"

definition input_handle_char_bind :: "'w app \<Rightarrow> uint32 \<Rightarrow> input_state \<Rightarrow> 'w \<Rightarrow> error + (bool \<times> 'w)" where
  "input_handle_char_bind app key s w =
     (if \<not> input_initialized s then Inr (True, w)
      else
        (case char_binds s of
           None \<Rightarrow> Inl NullDeref
         | Some ns \<Rightarrow> char_bind_loop app key s ns True w))"

definition input_handle_key_down_bind :: "'w app \<Rightarrow> uint32 \<Rightarrow> input_state \<Rightarrow> 'w \<Rightarrow> error + (bool \<times> 'w)" where
  "input_handle_key_down_bind app key s w =
     (if \<not> input_initialized s then Inr (True, w)
      else
        (case key_down_binds s of
           None \<Rightarrow> Inl NullDeref
         | Some ns \<Rightarrow> key_bind_loop app key s ns True w))"

definition input_handle_key_up_bind :: "'w app \<Rightarrow> uint32 \<Rightarrow> input_state \<Rightarrow> 'w \<Rightarrow> error + (bool \<times> 'w)" where
  "input_handle_key_up_bind app key s w =
     (if \<not> input_initialized s then Inr (True, w)
      else
        (case key_up_binds s of
           None \<Rightarrow> Inl NullDeref
         | Some ns \<Rightarrow> key_bind_loop app key s ns True w))"

definition input_handle_mouse_move_bind ::
  "'w app \<Rightarrow> int16 \<Rightarrow> int16 \<Rightarrow> input_state \<Rightarrow> 'w \<Rightarrow> error + (bool \<times> 'w)" where
  "input_handle_mouse_move_bind app x y s w =
     (if \<not> input_initialized s then Inr (True, w)
      else
        (case mouse_move_binds s of
           None \<Rightarrow> Inl NullDeref
         | Some ns \<Rightarrow> mouse_move_loop app x y s ns True w))"

definition input_handle_mouse_up_bind ::
  "'w app \<Rightarrow> MOUSEBTN \<Rightarrow> int16 \<Rightarrow> int16 \<Rightarrow> input_state \<Rightarrow> 'w \<Rightarrow> error + (bool \<times> 'w)" where
  "input_handle_mouse_up_bind app button x y s w =
     (if \<not> input_initialized s then Inr (True, w)
      else
        (case mouse_up_binds s of
           None \<Rightarrow> Inl NullDeref
         | Some ns \<Rightarrow> mouse_btn_loop app button x y s ns True w))"

definition input_handle_mouse_down_bind ::
  "'w app \<Rightarrow> MOUSEBTN \<Rightarrow> int16 \<Rightarrow> int16 \<Rightarrow> input_state \<Rightarrow> 'w \<Rightarrow> error + (bool \<times> 'w)" where
  "input_handle_mouse_down_bind app button x y s w =
     (if \<not> input_initialized s then Inr (True, w)
      else
        (case mouse_down_binds s of
           None \<Rightarrow> Inl NullDeref
         | Some ns \<Rightarrow> mouse_btn_loop app button x y s ns True w))"

section \<open>States the library can be in\<close>

text \<open>The static initializers of Input.c, for \<open>n\<close> event types.\<close>

definition initial_state :: "nat \<Rightarrow> input_state" where
  "initial_state n =
     \<lparr>input_initialized = False, block_keys = False, show_cursor = True,
      mouse_x = 0, mouse_y = 0,
      input_hooks = replicate n None,
      char_binds = None, key_up_binds = None, key_down_binds = None,
      mouse_up_binds = None, mouse_down_binds = None, mouse_move_binds = None,
      key_heap = Map.empty, mouse_heap = Map.empty, heap_top = 0\<rparr>"

text \<open>
  The invariant of the bind and hook stores. While the library is initialized all of
  its lists exist. A bind list has no node twice, every node is the address of a live
  record, and the record's \<open>type\<close> names the list it is in. No record lives at \<open>NULL\<close>
  or above the allocator's mark.
\<close>

definition list_nodes :: "addr list option \<Rightarrow> addr list" where
  "list_nodes l = (case l of None \<Rightarrow> [] | Some ns \<Rightarrow> ns)"

definition key_list_ok :: "BINDTYPE_KB \<Rightarrow> input_state \<Rightarrow> bool" where
  "key_list_ok t s \<longleftrightarrow>
     (input_initialized s \<longrightarrow> key_bindlist t s \<noteq> None) \<and>
     distinct (list_nodes (key_bindlist t s)) \<and>
     (\<forall>n \<in> set (list_nodes (key_bindlist t s)). \<exists>b. key_heap s n = Some b \<and> kb_type b = t)"

definition mouse_list_ok :: "BINDTYPE_MOUSE \<Rightarrow> input_state \<Rightarrow> bool" where
  "mouse_list_ok t s \<longleftrightarrow>
     (input_initialized s \<longrightarrow> mouse_bindlist t s \<noteq> None) \<and>
     distinct (list_nodes (mouse_bindlist t s)) \<and>
     (\<forall>n \<in> set (list_nodes (mouse_bindlist t s)). \<exists>b. mouse_heap s n = Some b \<and> mb_type b = t)"

definition wf_state :: "input_state \<Rightarrow> bool" where
  "wf_state s \<longleftrightarrow>
     (input_initialized s \<longrightarrow> (\<forall>l \<in> set (input_hooks s). l \<noteq> None)) \<and>
     key_list_ok BIND_CHAR s \<and> key_list_ok BIND_KEYUP s \<and> key_list_ok BIND_KEYDOWN s \<and>
     mouse_list_ok BIND_MOVE s \<and> mouse_list_ok BIND_BTNUP s \<and> mouse_list_ok BIND_BTNDOWN s \<and>
     (\<forall>a. a = NULL \<or> heap_top s < a \<longrightarrow> key_heap s a = None \<and> mouse_heap s a = None)"

subsection \<open>An example\<close>

text \<open>
  A state with three event types, hooks on two of them and binds in all six lists, and
  an application in which the function numbered 2 vetoes, every other function lets the
  event through, and the application state counts the calls.
\<close>

definition demo_rect :: rectangle_t where
  "demo_rect = \<lparr>r_left = 0, r_top = 0, r_right = 10, r_bottom = 10\<rparr>"

definition demo_key_heap :: "addr \<rightharpoonup> KeyBind" where
  "demo_key_heap =
     [1 \<mapsto> \<lparr>kb_type = BIND_CHAR, kb_key = 13, kb_handler = 3, kb_userdata = 50\<rparr>,
      2 \<mapsto> \<lparr>kb_type = BIND_KEYUP, kb_key = 65, kb_handler = 2, kb_userdata = 51\<rparr>,
      3 \<mapsto> \<lparr>kb_type = BIND_KEYUP, kb_key = 65, kb_handler = 1, kb_userdata = 52\<rparr>,
      4 \<mapsto> \<lparr>kb_type = BIND_KEYDOWN, kb_key = 65, kb_handler = 1, kb_userdata = 53\<rparr>,
      5 \<mapsto> \<lparr>kb_type = BIND_KEYDOWN, kb_key = 65, kb_handler = 1, kb_userdata = 54\<rparr>,
      6 \<mapsto> \<lparr>kb_type = BIND_KEYDOWN, kb_key = 66, kb_handler = 2, kb_userdata = 55\<rparr>]"

definition demo_mouse_heap :: "addr \<rightharpoonup> MouseBind" where
  "demo_mouse_heap =
     [7 \<mapsto> \<lparr>mb_type = BIND_BTNUP, mb_bounds = demo_rect, mb_button = 1, mb_handler = 1, mb_userdata = 70\<rparr>,
      8 \<mapsto> \<lparr>mb_type = BIND_BTNUP, mb_bounds = demo_rect, mb_button = 1, mb_handler = 2, mb_userdata = 80\<rparr>,
      9 \<mapsto> \<lparr>mb_type = BIND_BTNDOWN, mb_bounds = demo_rect, mb_button = 2, mb_handler = 1, mb_userdata = 90\<rparr>,
      10 \<mapsto> \<lparr>mb_type = BIND_MOVE, mb_bounds = demo_rect, mb_button = MOUSE_NONE, mb_handler = 1, mb_userdata = 95\<rparr>]"

definition demo_state :: input_state where
  "demo_state =
     \<lparr>input_initialized = True, block_keys = False, show_cursor = True,
      mouse_x = 3, mouse_y = 4,
      input_hooks =
        [Some [\<lparr>hook_handler = 1\<rparr>, \<lparr>hook_handler = 2\<rparr>, \<lparr>hook_handler = 3\<rparr>],
         Some [],
         Some [\<lparr>hook_handler = 1\<rparr>, \<lparr>hook_handler = 3\<rparr>]],
      char_binds = Some [1], key_up_binds = Some [2, 3], key_down_binds = Some [4, 5, 6],
      mouse_up_binds = Some [7, 8], mouse_down_binds = Some [9], mouse_move_binds = Some [10],
      key_heap = demo_key_heap, mouse_heap = demo_mouse_heap, heap_top = 10\<rparr>"

definition demo_app :: "nat app" where
  "demo_app c s w =
     (case c of
        HookCall h ev \<Rightarrow> (h \<noteq> 2, Suc w)
      | KeyBindCall f key data \<Rightarrow> (f \<noteq> 2, Suc w)
      | MouseBindCall f button x y data \<Rightarrow> (f \<noteq> 2, Suc w))"

section \<open>Sequences of calls\<close>

text \<open>
  A call of a public function that can change the state of the library, with its
  arguments. The three key-bind and the three mouse-bind registration functions are
  \<open>AddKeyBind\<close> and \<open>AddMouseBind\<close> with the bind type they pass on, and likewise for the
  removals by selector. \<open>MoveCursor\<close> is the write of \<open>mouse_x\<close> and \<open>mouse_y\<close> that
  \<open>input_handle_mouse_event\<close> performs, \<open>ShowCursor\<close> the write of the public variable
  \<open>show_cursor\<close> by the platform layer. A script runs calls in sequence from a state and
  stops at the first call that fails. The example state is what \<open>demo_script\<close> builds
  from the static initial state.
\<close>

datatype api_call =
    Initialize addr
  | Shutdown
  | AddHook INPUT_EVENT input_handler_t
  | RemoveHook INPUT_EVENT input_handler_t
  | AddKeyBind uint32 keybind_func_t addr BINDTYPE_KB
  | AddMouseBind MOUSEBTN rectangle_t mousebind_func_t addr BINDTYPE_MOUSE
  | RemoveKeyBindFromList uint32 keybind_func_t BINDTYPE_KB
  | RemoveKeyBind addr
  | RemoveMouseBindFromList MOUSEBTN mousebind_func_t BINDTYPE_MOUSE
  | RemoveMouseBind addr
  | SetMousebindButton addr MOUSEBTN
  | SetMousebindRect addr rectangle_t
  | SetMousebindFunc addr mousebind_func_t
  | SetMousebindParam addr addr
  | BlockKeys bool
  | MoveCursor int16 int16
  | ShowCursor bool

fun run_api :: "api_call \<Rightarrow> input_state \<Rightarrow> error + input_state" where
  "run_api (Initialize window) s = Inr (input_initialize window s)"
| "run_api Shutdown s = input_shutdown s"
| "run_api (AddHook event_id handler) s = input_add_hook event_id handler s"
| "run_api (RemoveHook event_id handler) s = input_remove_hook event_id handler s"
| "run_api (AddKeyBind key func data type) s = Inr (snd (input_add_key_bind key func data type s))"
| "run_api (AddMouseBind button area func data type) s =
     Inr (snd (input_add_mouse_bind button area func data type s))"
| "run_api (RemoveKeyBindFromList key func type) s = input_remove_key_bind_from_list key func type s"
| "run_api (RemoveKeyBind bind) s = input_remove_key_bind bind s"
| "run_api (RemoveMouseBindFromList button func type) s =
     input_remove_mouse_bind_from_list button func type s"
| "run_api (RemoveMouseBind bind) s = input_remove_mouse_bind bind s"
| "run_api (SetMousebindButton bind button) s = input_set_mousebind_button bind button s"
| "run_api (SetMousebindRect bind area) s = input_set_mousebind_rect bind area s"
| "run_api (SetMousebindFunc bind func) s = input_set_mousebind_func bind func s"
| "run_api (SetMousebindParam bind data) s = input_set_mousebind_param bind data s"
| "run_api (BlockKeys block) s = Inr (input_block_keys block s)"
| "run_api (MoveCursor x y) s = Inr (s\<lparr>mouse_x := x, mouse_y := y\<rparr>)"
| "run_api (ShowCursor b) s = Inr (s\<lparr>show_cursor := b\<rparr>)"

fun run_script :: "api_call list \<Rightarrow> input_state \<Rightarrow> error + input_state" where
  "run_script [] s = Inr s"
| "run_script (c # cs) s = bindE (run_api c s) (run_script cs)"

definition demo_script :: "api_call list" where
  "demo_script =
     [Initialize 1,
      AddHook 0 1, AddHook 0 2, AddHook 0 3, AddHook 2 1, AddHook 2 3,
      AddKeyBind 13 3 50 BIND_CHAR,
      AddKeyBind 65 2 51 BIND_KEYUP, AddKeyBind 65 1 52 BIND_KEYUP,
      AddKeyBind 65 1 53 BIND_KEYDOWN, AddKeyBind 65 1 54 BIND_KEYDOWN,
      AddKeyBind 66 2 55 BIND_KEYDOWN,
      AddMouseBind 1 demo_rect 1 70 BIND_BTNUP, AddMouseBind 1 demo_rect 2 80 BIND_BTNUP,
      AddMouseBind 2 demo_rect 1 90 BIND_BTNDOWN,
      AddMouseBind MOUSE_NONE demo_rect 1 95 BIND_MOVE,
      MoveCursor 3 4]"

text \<open>
  The user data a mouse bind holds after a script, if the bind was registered with
  \<open>data\<close> before it: the value of the last \<open>input_set_mousebind_param\<close> the script makes on
  the bind's handle, and \<open>data\<close> if it makes none.
\<close>

fun param_after :: "addr \<Rightarrow> addr \<Rightarrow> api_call list \<Rightarrow> addr" where
  "param_after bind data [] = data"
| "param_after bind data (SetMousebindParam h p # cs) =
     param_after bind (if h = bind then p else data) cs"
| "param_after bind data (c # cs) = param_after bind data cs"

section \<open>Vocabulary for the hook path\<close>

text \<open>
  \<open>hook_world\<close> is the application state after the hooks of a list have been called
  once each, in list order. \<open>hook_returns\<close> is the value that hook number \<open>k\<close> of the list
  returns when hooks \<open>0..k-1\<close> have been called before it.
\<close>

definition hook_world :: "'w app \<Rightarrow> InputEvent \<Rightarrow> input_state \<Rightarrow> InputHookFunc list \<Rightarrow> 'w \<Rightarrow> 'w" where
  "hook_world app event s hs w =
     fold (\<lambda>hook w. snd (app (HookCall (hook_handler hook) event) s w)) hs w"

definition hook_returns :: "'w app \<Rightarrow> InputEvent \<Rightarrow> input_state \<Rightarrow> InputHookFunc list \<Rightarrow> 'w \<Rightarrow> nat \<Rightarrow> bool" where
  "hook_returns app event s hs w k =
     fst (app (HookCall (hook_handler (hs ! k)) event) s (hook_world app event s (take k hs) w))"

section \<open>Well-formed states\<close>

text \<open>
  The invariant speaks about every bind list; these lemmas take it apart.
\<close>

lemma wf_key_list: "wf_state s \<Longrightarrow> key_list_ok t s"
  by (cases t) (simp_all add: wf_state_def)

lemma wf_mouse_list: "wf_state s \<Longrightarrow> mouse_list_ok t s"
  by (cases t) (simp_all add: wf_state_def)

lemma wf_key_listD:
  assumes "wf_state s" and "input_initialized s"
  obtains ns where "key_bindlist t s = Some ns" and "distinct ns"
    and "set ns \<subseteq> dom (key_heap s)"
    and "\<forall>n \<in> set ns. \<exists>b. key_heap s n = Some b \<and> kb_type b = t"
  using wf_key_list [OF assms(1), of t] assms(2)
  by (auto simp: key_list_ok_def list_nodes_def split: option.splits)

lemma wf_mouse_listD:
  assumes "wf_state s" and "input_initialized s"
  obtains ns where "mouse_bindlist t s = Some ns" and "distinct ns"
    and "set ns \<subseteq> dom (mouse_heap s)"
    and "\<forall>n \<in> set ns. \<exists>b. mouse_heap s n = Some b \<and> mb_type b = t"
  using wf_mouse_list [OF assms(1), of t] assms(2)
  by (auto simp: mouse_list_ok_def list_nodes_def split: option.splits)

lemma wf_stateI:
  assumes "input_initialized s \<Longrightarrow> \<forall>l \<in> set (input_hooks s). l \<noteq> None"
    and "\<And>t. key_list_ok t s" and "\<And>t. mouse_list_ok t s"
    and "\<And>a. a = NULL \<or> heap_top s < a \<Longrightarrow> key_heap s a = None \<and> mouse_heap s a = None"
  shows "wf_state s"
  unfolding wf_state_def
  by (intro conjI impI allI assms) assumption+

lemma wf_hooksD:
  "wf_state s \<Longrightarrow> input_initialized s \<Longrightarrow> \<forall>l \<in> set (input_hooks s). l \<noteq> None"
  by (simp add: wf_state_def)

lemma wf_heap_boundD:
  "wf_state s \<Longrightarrow> a = NULL \<or> heap_top s < a \<Longrightarrow> key_heap s a = None \<and> mouse_heap s a = None"
  unfolding wf_state_def by (elim conjE) (erule allE [of _ a], erule mp)

lemma key_list_okD:
  assumes "key_list_ok t s" and "n \<in> set (list_nodes (key_bindlist t s))"
  shows "\<exists>b. key_heap s n = Some b \<and> kb_type b = t"
  using assms by (simp add: key_list_ok_def)

lemma mouse_list_okD:
  assumes "mouse_list_ok t s" and "n \<in> set (list_nodes (mouse_bindlist t s))"
  shows "\<exists>b. mouse_heap s n = Some b \<and> mb_type b = t"
  using assms by (simp add: mouse_list_ok_def)

text \<open>
  The invariant of a list depends on the initialized flag, the list and its heap only.
\<close>

lemma key_list_ok_cong:
  assumes "input_initialized s' = input_initialized s"
    and "key_bindlist t s' = key_bindlist t s" and "key_heap s' = key_heap s"
  shows "key_list_ok t s' = key_list_ok t s"
  using assms by (simp add: key_list_ok_def)

lemma mouse_list_ok_cong:
  assumes "input_initialized s' = input_initialized s"
    and "mouse_bindlist t s' = mouse_bindlist t s" and "mouse_heap s' = mouse_heap s"
  shows "mouse_list_ok t s' = mouse_list_ok t s"
  using assms by (simp add: mouse_list_ok_def)

lemma wf_state_cong:
  assumes "input_initialized s' = input_initialized s"
    and "input_initialized s \<Longrightarrow> (\<forall>l \<in> set (input_hooks s). l \<noteq> None) \<Longrightarrow>
           (\<forall>l \<in> set (input_hooks s'). l \<noteq> None)"
    and "char_binds s' = char_binds s" and "key_up_binds s' = key_up_binds s"
    and "key_down_binds s' = key_down_binds s"
    and "mouse_up_binds s' = mouse_up_binds s" and "mouse_down_binds s' = mouse_down_binds s"
    and "mouse_move_binds s' = mouse_move_binds s"
    and "key_heap s' = key_heap s" and "mouse_heap s' = mouse_heap s"
    and "heap_top s' = heap_top s"
    and wf: "wf_state s"
  shows "wf_state s'"
proof (rule wf_stateI)
  assume "input_initialized s'"
  then have i: "input_initialized s" using assms(1) by simp
  show "\<forall>l \<in> set (input_hooks s'). l \<noteq> None"
    by (rule assms(2) [OF i wf_hooksD [OF wf i]])
next
  fix t
  have k: "key_bindlist t s' = key_bindlist t s"
    using assms(3-5) by (cases t) (simp_all add: key_bindlist_def)
  show "key_list_ok t s'"
    unfolding key_list_ok_cong [OF assms(1) k assms(9)] by (rule wf_key_list [OF wf])
next
  fix t
  have m: "mouse_bindlist t s' = mouse_bindlist t s"
    using assms(6-8) by (cases t) (simp_all add: mouse_bindlist_def)
  show "mouse_list_ok t s'"
    unfolding mouse_list_ok_cong [OF assms(1) m assms(10)] by (rule wf_mouse_list [OF wf])
next
  fix a assume "a = NULL \<or> heap_top s' < a"
  then have "a = NULL \<or> heap_top s < a" using assms(11) by simp
  from wf_heap_boundD [OF wf this]
  show "key_heap s' a = None \<and> mouse_heap s' a = None"
    using assms(9,10) by simp
qed

text \<open>
  What a write through \<open>bindlist\<close> changes, and what it leaves alone.
\<close>

lemma key_bindlist_update_simps:
  "key_bindlist t (key_bindlist_update t ns s) = Some ns"
  "key_heap (key_bindlist_update t ns s) = key_heap s"
  "mouse_heap (key_bindlist_update t ns s) = mouse_heap s"
  "input_initialized (key_bindlist_update t ns s) = input_initialized s"
  by (cases t; simp add: key_bindlist_def key_bindlist_update_def)+

lemma mouse_bindlist_update_simps:
  "mouse_bindlist t (mouse_bindlist_update t ns s) = Some ns"
  "mouse_heap (mouse_bindlist_update t ns s) = mouse_heap s"
  "key_heap (mouse_bindlist_update t ns s) = key_heap s"
  "input_initialized (mouse_bindlist_update t ns s) = input_initialized s"
  by (cases t; simp add: mouse_bindlist_def mouse_bindlist_update_def)+

lemma key_bindlist_heap_upd [simp]:
  "key_bindlist t (s\<lparr>key_heap := h\<rparr>) = key_bindlist t s"
  by (cases t) (simp_all add: key_bindlist_def)

lemma mouse_bindlist_heap_upd [simp]:
  "mouse_bindlist t (s\<lparr>mouse_heap := h\<rparr>) = mouse_bindlist t s"
  by (cases t) (simp_all add: mouse_bindlist_def)

lemma key_bindlist_update_other:
  "input_hooks (key_bindlist_update t ns s) = input_hooks s"
  "heap_top (key_bindlist_update t ns s) = heap_top s"
  "mouse_bindlist tm (key_bindlist_update t ns s) = mouse_bindlist tm s"
  "t' \<noteq> t \<Longrightarrow> key_bindlist t' (key_bindlist_update t ns s) = key_bindlist t' s"
  by (cases t; cases t'; cases tm;
      simp add: key_bindlist_def mouse_bindlist_def key_bindlist_update_def)+

lemma mouse_bindlist_update_other:
  "input_hooks (mouse_bindlist_update t ns s) = input_hooks s"
  "heap_top (mouse_bindlist_update t ns s) = heap_top s"
  "key_bindlist tk (mouse_bindlist_update t ns s) = key_bindlist tk s"
  "t' \<noteq> t \<Longrightarrow> mouse_bindlist t' (mouse_bindlist_update t ns s) = mouse_bindlist t' s"
  by (cases t; cases t'; cases tk;
      simp add: key_bindlist_def mouse_bindlist_def mouse_bindlist_update_def)+

lemma key_bindlist_other_fields [simp]:
  "key_bindlist t (s\<lparr>mouse_heap := mh\<rparr>) = key_bindlist t s"
  "key_bindlist t (s\<lparr>heap_top := n\<rparr>) = key_bindlist t s"
  by (cases t; simp add: key_bindlist_def)+

lemma mouse_bindlist_other_fields [simp]:
  "mouse_bindlist t (s\<lparr>key_heap := kh\<rparr>) = mouse_bindlist t s"
  "mouse_bindlist t (s\<lparr>heap_top := n\<rparr>) = mouse_bindlist t s"
  by (cases t; simp add: mouse_bindlist_def)+

lemma wf_initial_state: "wf_state (initial_state n)"
  by (simp add: wf_state_def initial_state_def key_list_ok_def mouse_list_ok_def
      key_bindlist_def mouse_bindlist_def list_nodes_def)

section \<open>The removal loops\<close>

text \<open>
  On a list without repetition whose nodes are live, the removal loop never fails: it
  keeps, in order, the nodes whose record fails the test and frees the others.
\<close>

lemma remove_mouse_loop_exact:
  assumes "distinct ns" and "set ns \<subseteq> dom h"
  shows "remove_mouse_loop button func ns h =
     Inr (filter (\<lambda>n. \<not> (mb_button (the (h n)) = button \<and> mb_handler (the (h n)) \<noteq> func)) ns,
          (\<lambda>a. if a \<in> set ns \<and> mb_button (the (h a)) = button \<and> mb_handler (the (h a)) \<noteq> func
                then None else h a))"
  using assms
proof (induction ns arbitrary: h)
  case Nil
  show ?case by simp
next
  case (Cons node ns)
  from Cons.prems obtain bind where hb: "h node = Some bind" by auto
  have dn: "distinct ns" and nn: "node \<notin> set ns" using Cons.prems by auto
  show ?case
  proof (cases "mb_button bind = button \<and> mb_handler bind \<noteq> func")
    case True
    let ?h' = "h(node := None)"
    have sub: "set ns \<subseteq> dom ?h'" using Cons.prems nn by auto
    have step: "remove_mouse_loop button func (node # ns) h = remove_mouse_loop button func ns ?h'"
      using True hb by simp
    have f: "filter (\<lambda>n. \<not> (mb_button (the (?h' n)) = button \<and> mb_handler (the (?h' n)) \<noteq> func)) ns
           = filter (\<lambda>n. \<not> (mb_button (the (h n)) = button \<and> mb_handler (the (h n)) \<noteq> func)) (node # ns)"
      using nn True hb by (auto intro: filter_cong)
    have g: "(\<lambda>a. if a \<in> set ns \<and> mb_button (the (?h' a)) = button \<and> mb_handler (the (?h' a)) \<noteq> func
                then None else ?h' a)
           = (\<lambda>a. if a \<in> set (node # ns) \<and> mb_button (the (h a)) = button \<and> mb_handler (the (h a)) \<noteq> func
                then None else h a)"
      using nn True hb by (intro ext) auto
    show ?thesis
      unfolding step Cons.IH [OF dn sub] f g ..
  next
    case False
    have sub: "set ns \<subseteq> dom h" using Cons.prems by auto
    have step: "remove_mouse_loop button func (node # ns) h =
        bindE (remove_mouse_loop button func ns h) (\<lambda>(ns', h'). Inr (node # ns', h'))"
      using False hb by auto
    have f: "node # filter (\<lambda>n. \<not> (mb_button (the (h n)) = button \<and> mb_handler (the (h n)) \<noteq> func)) ns
           = filter (\<lambda>n. \<not> (mb_button (the (h n)) = button \<and> mb_handler (the (h n)) \<noteq> func)) (node # ns)"
      using False hb by auto
    have g: "(\<lambda>a. if a \<in> set ns \<and> mb_button (the (h a)) = button \<and> mb_handler (the (h a)) \<noteq> func
                then None else h a)
           = (\<lambda>a. if a \<in> set (node # ns) \<and> mb_button (the (h a)) = button \<and> mb_handler (the (h a)) \<noteq> func
                then None else h a)"
      using False hb by (intro ext) auto
    show ?thesis
      unfolding step Cons.IH [OF dn sub] by (simp only: bindE_def sum.case prod.case f g)
  qed
qed

lemma remove_key_loop_exact:
  assumes "distinct ns" and "set ns \<subseteq> dom h"
  shows "remove_key_loop key func ns h =
     Inr (filter (\<lambda>n. \<not> (kb_key (the (h n)) = key \<and> kb_handler (the (h n)) = func)) ns,
          (\<lambda>a. if a \<in> set ns \<and> kb_key (the (h a)) = key \<and> kb_handler (the (h a)) = func
                then None else h a))"
  using assms
proof (induction ns arbitrary: h)
  case Nil
  show ?case by simp
next
  case (Cons node ns)
  from Cons.prems obtain bind where hb: "h node = Some bind" by auto
  have dn: "distinct ns" and nn: "node \<notin> set ns" using Cons.prems by auto
  show ?case
  proof (cases "kb_key bind = key \<and> kb_handler bind = func")
    case True
    let ?h' = "h(node := None)"
    have sub: "set ns \<subseteq> dom ?h'" using Cons.prems nn by auto
    have step: "remove_key_loop key func (node # ns) h = remove_key_loop key func ns ?h'"
      using True hb by simp
    have f: "filter (\<lambda>n. \<not> (kb_key (the (?h' n)) = key \<and> kb_handler (the (?h' n)) = func)) ns
           = filter (\<lambda>n. \<not> (kb_key (the (h n)) = key \<and> kb_handler (the (h n)) = func)) (node # ns)"
      using nn True hb by (auto intro: filter_cong)
    have g: "(\<lambda>a. if a \<in> set ns \<and> kb_key (the (?h' a)) = key \<and> kb_handler (the (?h' a)) = func
                then None else ?h' a)
           = (\<lambda>a. if a \<in> set (node # ns) \<and> kb_key (the (h a)) = key \<and> kb_handler (the (h a)) = func
                then None else h a)"
      using nn True hb by (intro ext) auto
    show ?thesis
      unfolding step Cons.IH [OF dn sub] f g ..
  next
    case False
    have sub: "set ns \<subseteq> dom h" using Cons.prems by auto
    have step: "remove_key_loop key func (node # ns) h =
        bindE (remove_key_loop key func ns h) (\<lambda>(ns', h'). Inr (node # ns', h'))"
      using False hb by auto
    have f: "node # filter (\<lambda>n. \<not> (kb_key (the (h n)) = key \<and> kb_handler (the (h n)) = func)) ns
           = filter (\<lambda>n. \<not> (kb_key (the (h n)) = key \<and> kb_handler (the (h n)) = func)) (node # ns)"
      using False hb by auto
    have g: "(\<lambda>a. if a \<in> set ns \<and> kb_key (the (h a)) = key \<and> kb_handler (the (h a)) = func
                then None else h a)
           = (\<lambda>a. if a \<in> set (node # ns) \<and> kb_key (the (h a)) = key \<and> kb_handler (the (h a)) = func
                then None else h a)"
      using False hb by (intro ext) auto
    show ?thesis
      unfolding step Cons.IH [OF dn sub] by (simp only: bindE_def sum.case prod.case f g)
  qed
qed

text \<open>
  On a well-formed initialized state the bulk removal routines return the state whose
  selected list and heap have lost exactly the records that pass the test.
\<close>

lemma mouse_removal_exact:
  assumes wf: "wf_state s" and init: "input_initialized s"
  shows "input_remove_mouse_bind_from_list button func type s =
     Inr (mouse_bindlist_update type
            (filter (\<lambda>n. \<not> (mb_button (the (mouse_heap s n)) = button \<and>
                              mb_handler (the (mouse_heap s n)) \<noteq> func))
               (list_nodes (mouse_bindlist type s)))
            (s\<lparr>mouse_heap :=
                 (\<lambda>a. if a \<in> set (list_nodes (mouse_bindlist type s)) \<and>
                          mb_button (the (mouse_heap s a)) = button \<and>
                          mb_handler (the (mouse_heap s a)) \<noteq> func
                       then None else mouse_heap s a)\<rparr>))"
proof -
  obtain ns where l: "mouse_bindlist type s = Some ns" and d: "distinct ns"
    and sub: "set ns \<subseteq> dom (mouse_heap s)"
    by (rule wf_mouse_listD [OF wf init, of type])
  show ?thesis
    by (simp add: input_remove_mouse_bind_from_list_def init l list_nodes_def
        remove_mouse_loop_exact [OF d sub] bindE_def)
qed

lemma key_removal_exact:
  assumes wf: "wf_state s" and init: "input_initialized s"
  shows "input_remove_key_bind_from_list key func type s =
     Inr (key_bindlist_update type
            (filter (\<lambda>n. \<not> (kb_key (the (key_heap s n)) = key \<and>
                              kb_handler (the (key_heap s n)) = func))
               (list_nodes (key_bindlist type s)))
            (s\<lparr>key_heap :=
                 (\<lambda>a. if a \<in> set (list_nodes (key_bindlist type s)) \<and>
                          kb_key (the (key_heap s a)) = key \<and>
                          kb_handler (the (key_heap s a)) = func
                       then None else key_heap s a)\<rparr>))"
proof -
  obtain ns where l: "key_bindlist type s = Some ns" and d: "distinct ns"
    and sub: "set ns \<subseteq> dom (key_heap s)"
    by (rule wf_key_listD [OF wf init, of type])
  show ?thesis
    by (simp add: input_remove_key_bind_from_list_def init l list_nodes_def
        remove_key_loop_exact [OF d sub] bindE_def)
qed

text \<open>
  The loop of \<open>input_remove_hook\<close> removes the first record with the requested handler.
\<close>

lemma remove_hook_loop_remove1:
  "map hook_handler (remove_hook_loop h hs) = remove1 h (map hook_handler hs)"
  by (induction hs) auto

lemma input_remove_hook_result:
  assumes "input_initialized s" and "t < NUM_INPUT_EVENTS s" and "input_hooks s ! t = Some hs"
  shows "input_remove_hook t h s =
     Inr (s\<lparr>input_hooks := (input_hooks s)[t := Some (remove_hook_loop h hs)]\<rparr>)"
  using assms by (simp add: input_remove_hook_def)

section \<open>Registration\<close>

text \<open>
  Registration order is list order: a new hook goes to the end of the list of its type.
\<close>

lemma input_add_hook_appends:
  assumes "input_initialized s" and "t < NUM_INPUT_EVENTS s" and "input_hooks s ! t = Some hs"
  shows "\<exists>s'. input_add_hook t h s = Inr s' \<and>
           input_hooks s' ! t = Some (hs @ [\<lparr>hook_handler = h\<rparr>]) \<and>
           (\<forall>u. u \<noteq> t \<longrightarrow> input_hooks s' ! u = input_hooks s ! u)"
  using assms by (simp add: input_add_hook_def NUM_INPUT_EVENTS_def list_push_def)

text \<open>Registration stores its arguments in a fresh record at the end of the list.\<close>

lemma input_add_key_bind_stores:
  assumes wf: "wf_state s" and init: "input_initialized s"
  shows "\<exists>bind s'. input_add_key_bind key func data type s = (bind, s') \<and>
        key_heap s' bind =
          Some \<lparr>kb_type = type, kb_key = key, kb_handler = func, kb_userdata = data\<rparr> \<and>
        list_nodes (key_bindlist type s') = list_nodes (key_bindlist type s) @ [bind]"
proof -
  obtain ns where l: "key_bindlist type s = Some ns"
    and d: "distinct ns" and sub: "set ns \<subseteq> dom (key_heap s)"
    by (rule wf_key_listD [OF wf init, of type])
  show ?thesis
    by (simp add: input_add_key_bind_def init l mem_alloc_clean_def list_push_def
        key_bindlist_update_simps list_nodes_def)
qed

lemma input_add_mouse_bind_stores:
  assumes wf: "wf_state s" and init: "input_initialized s"
  shows "\<exists>bind s'. input_add_mouse_bind button area func data type s = (bind, s') \<and>
        mouse_heap s' bind =
          Some \<lparr>mb_type = type, mb_bounds = area, mb_button = button, mb_handler = func,
                mb_userdata = data\<rparr> \<and>
        list_nodes (mouse_bindlist type s') = list_nodes (mouse_bindlist type s) @ [bind]"
proof -
  obtain ns where l: "mouse_bindlist type s = Some ns"
    and d: "distinct ns" and sub: "set ns \<subseteq> dom (mouse_heap s)"
    by (rule wf_mouse_listD [OF wf init, of type])
  show ?thesis
    by (simp add: input_add_mouse_bind_def init l mem_alloc_clean_def list_push_def
        mouse_bindlist_update_simps list_nodes_def)
qed

section \<open>Shutdown and initialization\<close>

text \<open>
  Freeing the nodes of a list without repetition whose nodes are live does not fail and
  removes exactly those nodes from the heap. On a well-formed state no node is in two
  lists, so \<open>input_shutdown\<close> returns.
\<close>

lemma free_nodes_exact:
  assumes "distinct ns" and "set ns \<subseteq> dom h"
  shows "free_nodes ns h = Inr (\<lambda>a. if a \<in> set ns then None else h a)"
  using assms
proof (induction ns arbitrary: h)
  case Nil
  show ?case by simp
next
  case (Cons n ns)
  from Cons.prems obtain v where hn: "h n = Some v" by auto
  have d: "distinct ns" and nn: "n \<notin> set ns" using Cons.prems by auto
  have sub: "set ns \<subseteq> dom (h(n := None))" using Cons.prems nn by auto
  have g: "(\<lambda>a. if a \<in> set ns then None else (h(n := None)) a) =
           (\<lambda>a. if a \<in> set (n # ns) then None else h a)"
    by (intro ext) auto
  show ?case
    using hn by (simp add: Cons.IH [OF d sub] g del: fun_upd_apply)
qed

lemma free_nodes_None:
  "free_nodes ns h = Inr h' \<Longrightarrow> h a = None \<Longrightarrow> h' a = None"
proof (induction ns arbitrary: h)
  case Nil
  then show ?case by simp
next
  case (Cons n ns)
  from Cons.prems(1) obtain v where "h n = Some v" and "free_nodes ns (h(n := None)) = Inr h'"
    by (auto split: option.splits)
  from Cons.IH [OF this(2)] Cons.prems(2) show ?case by simp
qed

lemma input_cleanup_list_None:
  "input_cleanup_list l h = Inr h' \<Longrightarrow> h a = None \<Longrightarrow> h' a = None"
  by (cases l) (auto simp: input_cleanup_list_def dest: free_nodes_None)

text \<open>
  \<open>input_shutdown\<close> and \<open>input_initialize\<close> write the lists, the heaps and the
  initialized flag, and nothing else.
\<close>

lemma input_shutdown_frame:
  assumes "input_shutdown s = Inr s'"
  shows "block_keys s' = block_keys s \<and> show_cursor s' = show_cursor s \<and>
         mouse_x s' = mouse_x s \<and> mouse_y s' = mouse_y s \<and> \<not> input_initialized s' \<and>
         NUM_INPUT_EVENTS s' = NUM_INPUT_EVENTS s"
  using assms
  by (auto simp: input_shutdown_def bindE_def NUM_INPUT_EVENTS_def split: if_splits sum.splits)

lemma input_initialize_frame:
  "block_keys (input_initialize window s) = block_keys s \<and>
   show_cursor (input_initialize window s) = show_cursor s \<and>
   mouse_x (input_initialize window s) = mouse_x s \<and>
   mouse_y (input_initialize window s) = mouse_y s"
  by (simp add: input_initialize_def)

lemma input_shutdown_returns:
  assumes wf: "wf_state s"
  shows "\<exists>s'. input_shutdown s = Inr s'"
proof (cases "input_initialized s")
  case False
  then show ?thesis by (simp add: input_shutdown_def)
next
  case init: True
  obtain c where lc: "key_bindlist BIND_CHAR s = Some c" and dc: "distinct c"
    and sc: "set c \<subseteq> dom (key_heap s)"
    and tc: "\<forall>n \<in> set c. \<exists>b. key_heap s n = Some b \<and> kb_type b = BIND_CHAR"
    by (rule wf_key_listD [OF wf init, of BIND_CHAR])
  obtain u where lu: "key_bindlist BIND_KEYUP s = Some u" and du: "distinct u"
    and su: "set u \<subseteq> dom (key_heap s)"
    and tu: "\<forall>n \<in> set u. \<exists>b. key_heap s n = Some b \<and> kb_type b = BIND_KEYUP"
    by (rule wf_key_listD [OF wf init, of BIND_KEYUP])
  obtain d where ld: "key_bindlist BIND_KEYDOWN s = Some d" and dd: "distinct d"
    and sd: "set d \<subseteq> dom (key_heap s)"
    and td: "\<forall>n \<in> set d. \<exists>b. key_heap s n = Some b \<and> kb_type b = BIND_KEYDOWN"
    by (rule wf_key_listD [OF wf init, of BIND_KEYDOWN])
  obtain mu where lmu: "mouse_bindlist BIND_BTNUP s = Some mu" and dmu: "distinct mu"
    and smu: "set mu \<subseteq> dom (mouse_heap s)"
    and tmu: "\<forall>n \<in> set mu. \<exists>b. mouse_heap s n = Some b \<and> mb_type b = BIND_BTNUP"
    by (rule wf_mouse_listD [OF wf init, of BIND_BTNUP])
  obtain md where lmd: "mouse_bindlist BIND_BTNDOWN s = Some md" and dmd: "distinct md"
    and smd: "set md \<subseteq> dom (mouse_heap s)"
    and tmd: "\<forall>n \<in> set md. \<exists>b. mouse_heap s n = Some b \<and> mb_type b = BIND_BTNDOWN"
    by (rule wf_mouse_listD [OF wf init, of BIND_BTNDOWN])
  obtain mv where lmv: "mouse_bindlist BIND_MOVE s = Some mv" and dmv: "distinct mv"
    and smv: "set mv \<subseteq> dom (mouse_heap s)"
    and tmv: "\<forall>n \<in> set mv. \<exists>b. mouse_heap s n = Some b \<and> mb_type b = BIND_MOVE"
    by (rule wf_mouse_listD [OF wf init, of BIND_MOVE])
  let ?k1 = "\<lambda>a. if a \<in> set c then None else key_heap s a"
  let ?k2 = "\<lambda>a. if a \<in> set u then None else ?k1 a"
  let ?m1 = "\<lambda>a. if a \<in> set mu then None else mouse_heap s a"
  let ?m2 = "\<lambda>a. if a \<in> set md then None else ?m1 a"
  have cu: "set u \<inter> set c = {}" using tc tu by fastforce
  have cd: "set d \<inter> set c = {}" using tc td by fastforce
  have ud: "set d \<inter> set u = {}" using tu td by fastforce
  have mud: "set md \<inter> set mu = {}" using tmu tmd by fastforce
  have muv: "set mv \<inter> set mu = {}" using tmu tmv by fastforce
  have mdv: "set mv \<inter> set md = {}" using tmd tmv by fastforce
  have f1: "free_nodes c (key_heap s) = Inr ?k1" by (rule free_nodes_exact [OF dc sc])
  have s2: "set u \<subseteq> dom ?k1" using su cu by (auto simp: dom_def)
  have f2: "free_nodes u ?k1 = Inr ?k2" by (rule free_nodes_exact [OF du s2])
  have s3: "set d \<subseteq> dom ?k2" using sd cd ud by (auto simp: dom_def)
  have f3: "\<exists>k3. free_nodes d ?k2 = Inr k3" using free_nodes_exact [OF dd s3] by blast
  have g1: "free_nodes mu (mouse_heap s) = Inr ?m1" by (rule free_nodes_exact [OF dmu smu])
  have t2: "set md \<subseteq> dom ?m1" using smd mud by (auto simp: dom_def)
  have g2: "free_nodes md ?m1 = Inr ?m2" by (rule free_nodes_exact [OF dmd t2])
  have t3: "set mv \<subseteq> dom ?m2" using smv muv mdv by (auto simp: dom_def)
  have g3: "\<exists>m3. free_nodes mv ?m2 = Inr m3" using free_nodes_exact [OF dmv t3] by blast
  from f3 obtain k3 where f3': "free_nodes d ?k2 = Inr k3" by blast
  from g3 obtain m3 where g3': "free_nodes mv ?m2 = Inr m3" by blast
  have lists: "char_binds s = Some c" "key_up_binds s = Some u" "key_down_binds s = Some d"
    "mouse_up_binds s = Some mu" "mouse_down_binds s = Some md" "mouse_move_binds s = Some mv"
    using lc lu ld lmu lmd lmv by (simp_all add: key_bindlist_def mouse_bindlist_def)
  show ?thesis
    by (simp add: input_shutdown_def init lists input_cleanup_list_def bindE_def f1 f2 f3' g1 g2 g3')
qed

section \<open>The invariant in reachable states\<close>

text \<open>
  Every public function preserves the invariant, so it holds in every state that a
  sequence of calls reaches from the static initial state. The example state is such a
  state.
\<close>

lemma wf_input_block_keys: "wf_state s \<Longrightarrow> wf_state (input_block_keys b s)"
  by (erule wf_state_cong [rotated -1]) (simp_all add: input_block_keys_def)

lemma wf_input_initialize: "wf_state s \<Longrightarrow> wf_state (input_initialize window s)"
  by (simp add: wf_state_def input_initialize_def key_list_ok_def mouse_list_ok_def
      key_bindlist_def mouse_bindlist_def list_nodes_def list_create_def)

lemma wf_input_add_hook:
  assumes "wf_state s" and "input_add_hook t h s = Inr s'"
  shows "wf_state s'"
proof (cases "input_initialized s \<and> t < NUM_INPUT_EVENTS s")
  case False
  then have "s' = s" using assms(2) by (auto simp: input_add_hook_def split: if_splits)
  then show ?thesis using assms(1) by simp
next
  case True
  then obtain hs where hs: "input_hooks s ! t = Some hs"
    using assms(2) by (auto simp: input_add_hook_def split: option.splits)
  have s': "s' = s\<lparr>input_hooks := (input_hooks s)[t := Some (list_push hs \<lparr>hook_handler = h\<rparr>)]\<rparr>"
    using True hs assms(2) by (simp add: input_add_hook_def)
  show ?thesis
    using assms(1)
    by (rule wf_state_cong [rotated -1]) (auto simp: s' dest!: set_update_subset_insert [THEN subsetD])
qed

lemma wf_input_remove_hook:
  assumes "wf_state s" and "input_remove_hook t h s = Inr s'"
  shows "wf_state s'"
proof (cases "input_initialized s \<and> t < NUM_INPUT_EVENTS s")
  case False
  then have "s' = s" using assms(2) by (auto simp: input_remove_hook_def split: if_splits)
  then show ?thesis using assms(1) by simp
next
  case True
  then obtain hs where hs: "input_hooks s ! t = Some hs"
    using assms(2) by (auto simp: input_remove_hook_def split: option.splits)
  have s': "s' = s\<lparr>input_hooks := (input_hooks s)[t := Some (remove_hook_loop h hs)]\<rparr>"
    using True hs assms(2) by (simp add: input_remove_hook_def)
  show ?thesis
    using assms(1)
    by (rule wf_state_cong [rotated -1]) (auto simp: s' dest!: set_update_subset_insert [THEN subsetD])
qed

lemma wf_input_handle_mouse_event:
  assumes "wf_state s" and "input_handle_mouse_event app t x y button wheel s w = Inr (r, s', w')"
  shows "wf_state s'"
proof -
  have "s' = s \<or> s' = s\<lparr>mouse_x := x, mouse_y := y\<rparr>"
    using assms(2)
    by (auto simp: input_handle_mouse_event_def Let_def split: if_splits option.splits prod.splits)
  then show ?thesis
  proof
    assume "s' = s" then show ?thesis using assms(1) by simp
  next
    assume s': "s' = s\<lparr>mouse_x := x, mouse_y := y\<rparr>"
    show ?thesis
      using assms(1) by (rule wf_state_cong [rotated -1]) (simp_all add: s')
  qed
qed

lemma wf_input_add_key_bind:
  assumes wf: "wf_state s" and add: "input_add_key_bind key func data type s = (bind, s')"
  shows "wf_state s'"
proof (cases "input_initialized s")
  case False
  then have "s' = s" using add by (simp add: input_add_key_bind_def)
  then show ?thesis using wf by simp
next
  case init: True
  obtain ns where l: "key_bindlist type s = Some ns" and d: "distinct ns"
    and sub: "set ns \<subseteq> dom (key_heap s)"
    by (rule wf_key_listD [OF wf init, of type])
  let ?b = "\<lparr>kb_type = type, kb_key = key, kb_handler = func, kb_userdata = data\<rparr>"
  let ?a = "Suc (heap_top s)"
  let ?s1 = "s\<lparr>heap_top := ?a, key_heap := (key_heap s)(?a \<mapsto> ?b)\<rparr>"
  have s': "s' = key_bindlist_update type (ns @ [?a]) ?s1" and bind: "bind = ?a"
    using add init l by (auto simp: input_add_key_bind_def mem_alloc_clean_def list_push_def)
  have fresh: "key_heap s ?a = None" using wf_heap_boundD [OF wf, of ?a] by simp
  have live: "n \<noteq> ?a" if "n \<in> set (list_nodes (key_bindlist t s))" for n t
    using key_list_okD [OF wf_key_list [OF wf, of t] that] fresh by auto
  show ?thesis
  proof (rule wf_stateI)
    assume "input_initialized s'"
    show "\<forall>l \<in> set (input_hooks s'). l \<noteq> None"
      using wf_hooksD [OF wf init] by (simp add: s' key_bindlist_update_other)
  next
    fix t
    show "key_list_ok t s'"
    proof (cases "t = type")
      case True
      have nin: "?a \<notin> set ns" using live [of _ type] l by (auto simp: list_nodes_def)
      have old: "\<exists>b. key_heap s n = Some b \<and> kb_type b = type" if "n \<in> set ns" for n
        using key_list_okD [OF wf_key_list [OF wf, of type], of n] that l
        by (simp add: list_nodes_def)
      show ?thesis
        using d nin old
        by (auto simp: True key_list_ok_def s' key_bindlist_update_simps list_nodes_def)
    next
      case False
      have same: "key_bindlist t s' = key_bindlist t s"
        using False by (simp add: s' key_bindlist_update_other)
      have kh: "key_heap s' = (key_heap s)(?a \<mapsto> ?b)"
        and i': "input_initialized s' = input_initialized s"
        by (simp_all add: s' key_bindlist_update_simps)
      have ok: "key_list_ok t s" by (rule wf_key_list [OF wf])
      show ?thesis
        using ok live [of _ t]
        unfolding key_list_ok_def same kh i' by auto
    qed
  next
    fix t
    have "mouse_list_ok t s' = mouse_list_ok t s"
      by (rule mouse_list_ok_cong) (simp_all add: s' key_bindlist_update_simps key_bindlist_update_other)
    then show "mouse_list_ok t s'" using wf_mouse_list [OF wf] by simp
  next
    fix a assume a: "a = NULL \<or> heap_top s' < a"
    have top: "heap_top s' = ?a" by (simp add: s' key_bindlist_update_other)
    from a top have old: "a = NULL \<or> heap_top s < a" and ne: "a \<noteq> ?a"
      by (auto simp: NULL_def)
    from wf_heap_boundD [OF wf old] ne
    show "key_heap s' a = None \<and> mouse_heap s' a = None"
      by (simp add: s' key_bindlist_update_simps)
  qed
qed

lemma wf_input_add_mouse_bind:
  assumes wf: "wf_state s" and add: "input_add_mouse_bind button area func data type s = (bind, s')"
  shows "wf_state s'"
proof (cases "input_initialized s")
  case False
  then have "s' = s" using add by (simp add: input_add_mouse_bind_def)
  then show ?thesis using wf by simp
next
  case init: True
  obtain ns where l: "mouse_bindlist type s = Some ns" and d: "distinct ns"
    and sub: "set ns \<subseteq> dom (mouse_heap s)"
    by (rule wf_mouse_listD [OF wf init, of type])
  let ?b = "\<lparr>mb_type = type, mb_bounds = area, mb_button = button, mb_handler = func,
      mb_userdata = data\<rparr>"
  let ?a = "Suc (heap_top s)"
  let ?s1 = "s\<lparr>heap_top := ?a, mouse_heap := (mouse_heap s)(?a \<mapsto> ?b)\<rparr>"
  have s': "s' = mouse_bindlist_update type (ns @ [?a]) ?s1" and bind: "bind = ?a"
    using add init l by (auto simp: input_add_mouse_bind_def mem_alloc_clean_def list_push_def)
  have fresh: "mouse_heap s ?a = None" using wf_heap_boundD [OF wf, of ?a] by simp
  have live: "n \<noteq> ?a" if "n \<in> set (list_nodes (mouse_bindlist t s))" for n t
    using mouse_list_okD [OF wf_mouse_list [OF wf, of t] that] fresh by auto
  show ?thesis
  proof (rule wf_stateI)
    assume "input_initialized s'"
    show "\<forall>l \<in> set (input_hooks s'). l \<noteq> None"
      using wf_hooksD [OF wf init] by (simp add: s' mouse_bindlist_update_other)
  next
    fix t
    show "mouse_list_ok t s'"
    proof (cases "t = type")
      case True
      have nin: "?a \<notin> set ns" using live [of _ type] l by (auto simp: list_nodes_def)
      have old: "\<exists>b. mouse_heap s n = Some b \<and> mb_type b = type" if "n \<in> set ns" for n
        using mouse_list_okD [OF wf_mouse_list [OF wf, of type], of n] that l
        by (simp add: list_nodes_def)
      show ?thesis
        using d nin old
        by (auto simp: True mouse_list_ok_def s' mouse_bindlist_update_simps list_nodes_def)
    next
      case False
      have same: "mouse_bindlist t s' = mouse_bindlist t s"
        using False by (simp add: s' mouse_bindlist_update_other)
      have kh: "mouse_heap s' = (mouse_heap s)(?a \<mapsto> ?b)"
        and i': "input_initialized s' = input_initialized s"
        by (simp_all add: s' mouse_bindlist_update_simps)
      have ok: "mouse_list_ok t s" by (rule wf_mouse_list [OF wf])
      show ?thesis
        using ok live [of _ t]
        unfolding mouse_list_ok_def same kh i' by auto
    qed
  next
    fix t
    have "key_list_ok t s' = key_list_ok t s"
      by (rule key_list_ok_cong) (simp_all add: s' mouse_bindlist_update_simps mouse_bindlist_update_other)
    then show "key_list_ok t s'" using wf_key_list [OF wf] by simp
  next
    fix a assume a: "a = NULL \<or> heap_top s' < a"
    have top: "heap_top s' = ?a" by (simp add: s' mouse_bindlist_update_other)
    from a top have old: "a = NULL \<or> heap_top s < a" and ne: "a \<noteq> ?a"
      by (auto simp: NULL_def)
    from wf_heap_boundD [OF wf old] ne
    show "key_heap s' a = None \<and> mouse_heap s' a = None"
      by (simp add: s' mouse_bindlist_update_simps)
  qed
qed

lemma wf_input_remove_key_bind_from_list:
  assumes wf: "wf_state s" and rm: "input_remove_key_bind_from_list key func type s = Inr s'"
  shows "wf_state s'"
proof (cases "input_initialized s")
  case False
  then have "s' = s" using rm by (simp add: input_remove_key_bind_from_list_def)
  then show ?thesis using wf by simp
next
  case init: True
  let ?ns = "list_nodes (key_bindlist type s)"
  let ?gone = "\<lambda>a. a \<in> set ?ns \<and> kb_key (the (key_heap s a)) = key \<and>
                   kb_handler (the (key_heap s a)) = func"
  let ?H = "\<lambda>a. if ?gone a then None else key_heap s a"
  let ?keep = "filter (\<lambda>n. \<not> (kb_key (the (key_heap s n)) = key \<and>
                                kb_handler (the (key_heap s n)) = func)) ?ns"
  have s': "s' = key_bindlist_update type ?keep (s\<lparr>key_heap := ?H\<rparr>)"
    using rm unfolding key_removal_exact [OF wf init] by simp
  have kh: "key_heap s' = ?H" and i': "input_initialized s' = input_initialized s"
    and kl: "key_bindlist type s' = Some ?keep"
    by (simp_all add: s' key_bindlist_update_simps)
  have ok: "key_list_ok t s" for t by (rule wf_key_list [OF wf])
  show ?thesis
  proof (rule wf_stateI)
    assume "input_initialized s'"
    show "\<forall>l \<in> set (input_hooks s'). l \<noteq> None"
      using wf_hooksD [OF wf init] by (simp add: s' key_bindlist_update_other)
  next
    fix t
    show "key_list_ok t s'"
    proof (cases "t = type")
      case True
      have d: "distinct ?ns" using ok [of type] by (simp add: key_list_ok_def)
      have old: "\<exists>b. key_heap s n = Some b \<and> kb_type b = type" if "n \<in> set ?ns" for n
        using key_list_okD [OF ok that] .
      show ?thesis
        unfolding key_list_ok_def True kl kh using d old by (auto simp: list_nodes_def)
    next
      case False
      have same: "key_bindlist t s' = key_bindlist t s"
        using False by (simp add: s' key_bindlist_update_other)
      have other: "\<not> ?gone n" if "n \<in> set (list_nodes (key_bindlist t s))" for n
        using key_list_okD [OF ok that] key_list_okD [OF ok, of n type] False by auto
      show ?thesis
        using ok [of t] other
        unfolding key_list_ok_def same kh i' by auto
    qed
  next
    fix t
    have "mouse_list_ok t s' = mouse_list_ok t s"
      by (rule mouse_list_ok_cong) (simp_all add: s' key_bindlist_update_simps key_bindlist_update_other)
    then show "mouse_list_ok t s'" using wf_mouse_list [OF wf] by simp
  next
    fix a assume a: "a = NULL \<or> heap_top s' < a"
    have top: "heap_top s' = heap_top s" by (simp add: s' key_bindlist_update_other)
    from a top have old: "a = NULL \<or> heap_top s < a" by simp
    from wf_heap_boundD [OF wf old]
    show "key_heap s' a = None \<and> mouse_heap s' a = None"
      by (simp add: s' key_bindlist_update_simps)
  qed
qed

lemma wf_input_remove_mouse_bind_from_list:
  assumes wf: "wf_state s" and rm: "input_remove_mouse_bind_from_list button func type s = Inr s'"
  shows "wf_state s'"
proof (cases "input_initialized s")
  case False
  then have "s' = s" using rm by (simp add: input_remove_mouse_bind_from_list_def)
  then show ?thesis using wf by simp
next
  case init: True
  let ?ns = "list_nodes (mouse_bindlist type s)"
  let ?gone = "\<lambda>a. a \<in> set ?ns \<and> mb_button (the (mouse_heap s a)) = button \<and>
                   mb_handler (the (mouse_heap s a)) \<noteq> func"
  let ?H = "\<lambda>a. if ?gone a then None else mouse_heap s a"
  let ?keep = "filter (\<lambda>n. \<not> (mb_button (the (mouse_heap s n)) = button \<and>
                                mb_handler (the (mouse_heap s n)) \<noteq> func)) ?ns"
  have s': "s' = mouse_bindlist_update type ?keep (s\<lparr>mouse_heap := ?H\<rparr>)"
    using rm unfolding mouse_removal_exact [OF wf init] by simp
  have kh: "mouse_heap s' = ?H" and i': "input_initialized s' = input_initialized s"
    and kl: "mouse_bindlist type s' = Some ?keep"
    by (simp_all add: s' mouse_bindlist_update_simps)
  have ok: "mouse_list_ok t s" for t by (rule wf_mouse_list [OF wf])
  show ?thesis
  proof (rule wf_stateI)
    assume "input_initialized s'"
    show "\<forall>l \<in> set (input_hooks s'). l \<noteq> None"
      using wf_hooksD [OF wf init] by (simp add: s' mouse_bindlist_update_other)
  next
    fix t
    show "mouse_list_ok t s'"
    proof (cases "t = type")
      case True
      have d: "distinct ?ns" using ok [of type] by (simp add: mouse_list_ok_def)
      have old: "\<exists>b. mouse_heap s n = Some b \<and> mb_type b = type" if "n \<in> set ?ns" for n
        using mouse_list_okD [OF ok that] .
      show ?thesis
        unfolding mouse_list_ok_def True kl kh using d old by (auto simp: list_nodes_def)
    next
      case False
      have same: "mouse_bindlist t s' = mouse_bindlist t s"
        using False by (simp add: s' mouse_bindlist_update_other)
      have other: "\<not> ?gone n" if "n \<in> set (list_nodes (mouse_bindlist t s))" for n
        using mouse_list_okD [OF ok that] mouse_list_okD [OF ok, of n type] False by auto
      show ?thesis
        using ok [of t] other
        unfolding mouse_list_ok_def same kh i' by auto
    qed
  next
    fix t
    have "key_list_ok t s' = key_list_ok t s"
      by (rule key_list_ok_cong) (simp_all add: s' mouse_bindlist_update_simps mouse_bindlist_update_other)
    then show "key_list_ok t s'" using wf_key_list [OF wf] by simp
  next
    fix a assume a: "a = NULL \<or> heap_top s' < a"
    have top: "heap_top s' = heap_top s" by (simp add: s' mouse_bindlist_update_other)
    from a top have old: "a = NULL \<or> heap_top s < a" by simp
    from wf_heap_boundD [OF wf old]
    show "key_heap s' a = None \<and> mouse_heap s' a = None"
      by (simp add: s' mouse_bindlist_update_simps)
  qed
qed

lemma wf_mouse_heap_update:
  assumes wf: "wf_state s" and nn: "bind \<noteq> NULL" and hb: "mouse_heap s bind = Some b"
    and ty: "mb_type b' = mb_type b"
  shows "wf_state (s\<lparr>mouse_heap := (mouse_heap s)(bind \<mapsto> b')\<rparr>)"
proof (rule wf_stateI)
  assume "input_initialized (s\<lparr>mouse_heap := (mouse_heap s)(bind \<mapsto> b')\<rparr>)"
  then show "\<forall>l \<in> set (input_hooks (s\<lparr>mouse_heap := (mouse_heap s)(bind \<mapsto> b')\<rparr>)). l \<noteq> None"
    using wf_hooksD [OF wf] by simp
next
  fix t
  have "key_list_ok t (s\<lparr>mouse_heap := (mouse_heap s)(bind \<mapsto> b')\<rparr>) = key_list_ok t s"
    by (rule key_list_ok_cong) simp_all
  then show "key_list_ok t (s\<lparr>mouse_heap := (mouse_heap s)(bind \<mapsto> b')\<rparr>)"
    using wf_key_list [OF wf] by simp
next
  fix t
  show "mouse_list_ok t (s\<lparr>mouse_heap := (mouse_heap s)(bind \<mapsto> b')\<rparr>)"
    using wf_mouse_list [OF wf, of t] hb ty
    by (auto simp: mouse_list_ok_def)
next
  fix a assume a: "a = NULL \<or> heap_top (s\<lparr>mouse_heap := (mouse_heap s)(bind \<mapsto> b')\<rparr>) < a"
  then have old: "a = NULL \<or> heap_top s < a" by simp
  from wf_heap_boundD [OF wf old] hb have "a \<noteq> bind" by auto
  with wf_heap_boundD [OF wf old]
  show "key_heap (s\<lparr>mouse_heap := (mouse_heap s)(bind \<mapsto> b')\<rparr>) a = None \<and>
        mouse_heap (s\<lparr>mouse_heap := (mouse_heap s)(bind \<mapsto> b')\<rparr>) a = None"
    by simp
qed

lemma wf_input_set_mousebind:
  assumes wf: "wf_state s"
  shows "input_set_mousebind_button bind button s = Inr s' \<Longrightarrow> wf_state s'"
    and "input_set_mousebind_rect bind area s = Inr s' \<Longrightarrow> wf_state s'"
    and "input_set_mousebind_func bind func s = Inr s' \<Longrightarrow> wf_state s'"
    and "input_set_mousebind_param bind data s = Inr s' \<Longrightarrow> wf_state s'"
  using wf wf_mouse_heap_update [OF wf, of bind]
  by (auto simp: input_set_mousebind_button_def input_set_mousebind_rect_def
      input_set_mousebind_func_def input_set_mousebind_param_def
      split: if_splits option.splits)

lemma wf_input_shutdown:
  assumes wf: "wf_state s" and sh: "input_shutdown s = Inr s'"
  shows "wf_state s'"
proof (cases "input_initialized s")
  case False
  then have "s' = s" using sh by (simp add: input_shutdown_def)
  then show ?thesis using wf by simp
next
  case init: True
  from sh init obtain kh1 kh2 kh3 mh1 mh2 mh3 where
    k1: "input_cleanup_list (char_binds s) (key_heap s) = Inr kh1"
    and k2: "input_cleanup_list (key_up_binds s) kh1 = Inr kh2"
    and k3: "input_cleanup_list (key_down_binds s) kh2 = Inr kh3"
    and m1: "input_cleanup_list (mouse_up_binds s) (mouse_heap s) = Inr mh1"
    and m2: "input_cleanup_list (mouse_down_binds s) mh1 = Inr mh2"
    and m3: "input_cleanup_list (mouse_move_binds s) mh2 = Inr mh3"
    and s': "s' = s\<lparr>input_hooks := map (\<lambda>_. None) (input_hooks s),
                 char_binds := None, key_up_binds := None, key_down_binds := None,
                 mouse_up_binds := None, mouse_down_binds := None, mouse_move_binds := None,
                 key_heap := kh3, mouse_heap := mh3, input_initialized := False\<rparr>"
    by (auto simp: input_shutdown_def bindE_def split: sum.splits)
  have kn: "kh3 a = None" if "key_heap s a = None" for a
    by (rule input_cleanup_list_None [OF k3 input_cleanup_list_None [OF k2 input_cleanup_list_None [OF k1 that]]])
  have mn: "mh3 a = None" if "mouse_heap s a = None" for a
    by (rule input_cleanup_list_None [OF m3 input_cleanup_list_None [OF m2 input_cleanup_list_None [OF m1 that]]])
  show ?thesis
  proof (rule wf_stateI)
    assume "input_initialized s'"
    then show "\<forall>l \<in> set (input_hooks s'). l \<noteq> None" by (simp add: s')
  next
    fix t show "key_list_ok t s'"
      by (cases t) (simp_all add: key_list_ok_def s' key_bindlist_def list_nodes_def)
  next
    fix t show "mouse_list_ok t s'"
      by (cases t) (simp_all add: mouse_list_ok_def s' mouse_bindlist_def list_nodes_def)
  next
    fix a assume "a = NULL \<or> heap_top s' < a"
    then have "a = NULL \<or> heap_top s < a" by (simp add: s')
    from wf_heap_boundD [OF wf this]
    show "key_heap s' a = None \<and> mouse_heap s' a = None"
      by (simp add: s' kn mn)
  qed
qed

lemma wf_run_api:
  assumes wf: "wf_state s" and run: "run_api c s = Inr s'"
  shows "wf_state s'"
proof (cases c)
  case (Initialize window)
  then show ?thesis using run wf_input_initialize [OF wf] by auto
next
  case Shutdown
  then show ?thesis using run wf_input_shutdown [OF wf] by auto
next
  case (AddHook t h)
  then show ?thesis using run wf_input_add_hook [OF wf] by auto
next
  case (RemoveHook t h)
  then show ?thesis using run wf_input_remove_hook [OF wf] by auto
next
  case (AddKeyBind key func data type)
  then show ?thesis
    using run wf_input_add_key_bind [OF wf, of key func data type]
    by (cases "input_add_key_bind key func data type s") auto
next
  case (AddMouseBind button area func data type)
  then show ?thesis
    using run wf_input_add_mouse_bind [OF wf, of button area func data type]
    by (cases "input_add_mouse_bind button area func data type s") auto
next
  case (RemoveKeyBindFromList key func type)
  then show ?thesis using run wf_input_remove_key_bind_from_list [OF wf] by auto
next
  case (RemoveKeyBind bind)
  then show ?thesis
    using run wf_input_remove_key_bind_from_list [OF wf]
    by (auto simp: input_remove_key_bind_def split: if_splits option.splits)
next
  case (RemoveMouseBindFromList button func type)
  then show ?thesis using run wf_input_remove_mouse_bind_from_list [OF wf] by auto
next
  case (RemoveMouseBind bind)
  then show ?thesis
    using run wf_input_remove_mouse_bind_from_list [OF wf]
    by (auto simp: input_remove_mouse_bind_def split: if_splits option.splits)
next
  case (SetMousebindButton bind button)
  then show ?thesis using run wf_input_set_mousebind(1) [OF wf] by auto
next
  case (SetMousebindRect bind area)
  then show ?thesis using run wf_input_set_mousebind(2) [OF wf] by auto
next
  case (SetMousebindFunc bind func)
  then show ?thesis using run wf_input_set_mousebind(3) [OF wf] by auto
next
  case (SetMousebindParam bind data)
  then show ?thesis using run wf_input_set_mousebind(4) [OF wf] by auto
next
  case (BlockKeys b)
  then show ?thesis using run wf_input_block_keys [OF wf] by auto
next
  case (MoveCursor x y)
  have "wf_state (s\<lparr>mouse_x := x, mouse_y := y\<rparr>)"
    using wf by (rule wf_state_cong [rotated -1]) simp_all
  then show ?thesis using run MoveCursor by auto
next
  case (ShowCursor b)
  have "wf_state (s\<lparr>show_cursor := b\<rparr>)"
    using wf by (rule wf_state_cong [rotated -1]) simp_all
  then show ?thesis using run ShowCursor by auto
qed

lemma wf_run_script:
  "wf_state s \<Longrightarrow> run_script cs s = Inr s' \<Longrightarrow> wf_state s'"
proof (induction cs arbitrary: s)
  case Nil
  then show ?case by simp
next
  case (Cons c cs)
  from Cons.prems(2) obtain s1 where c: "run_api c s = Inr s1" and cs: "run_script cs s1 = Inr s'"
    by (auto simp: bindE_def split: sum.splits)
  show ?case by (rule Cons.IH [OF wf_run_api [OF Cons.prems(1) c] cs])
qed

lemma reachable_wf: "run_script cs (initial_state n) = Inr s \<Longrightarrow> wf_state s"
  by (rule wf_run_script [OF wf_initial_state])

lemma demo_hooks_built: "(replicate 3 x)[0 := a, 2 := b] = [a, x, b]"
  by (simp add: eval_nat_numeral)

lemma demo_state_reachable: "run_script demo_script (initial_state 3) = Inr demo_state"
  by (simp add: demo_script_def initial_state_def demo_state_def bindE_def input_initialize_def
      NULL_def list_create_def list_push_def input_add_hook_def NUM_INPUT_EVENTS_def
      input_add_key_bind_def input_add_mouse_bind_def mem_alloc_clean_def
      key_bindlist_def mouse_bindlist_def key_bindlist_update_def mouse_bindlist_update_def
      demo_key_heap_def demo_mouse_heap_def numeral_2_eq_2 [symmetric] demo_hooks_built)

lemma wf_demo_state: "wf_state demo_state"
  by (rule reachable_wf [OF demo_state_reachable])

lemma init_demo_state: "input_initialized demo_state"
  by (simp add: demo_state_def)

lemma demo_state_hooks:
  "input_initialized demo_state"
  "NUM_INPUT_EVENTS demo_state = 3"
  "input_hooks demo_state ! 0 = Some [\<lparr>hook_handler = 1\<rparr>, \<lparr>hook_handler = 2\<rparr>, \<lparr>hook_handler = 3\<rparr>]"
  "input_hooks demo_state ! 2 = Some [\<lparr>hook_handler = 1\<rparr>, \<lparr>hook_handler = 3\<rparr>]"
  "mouse_x demo_state = 3" "mouse_y demo_state = 4"
  "block_keys demo_state = False"
  by (simp_all add: demo_state_def NUM_INPUT_EVENTS_def)

lemma input_block_keys_simps:
  "input_initialized (input_block_keys b s) = input_initialized s"
  "NUM_INPUT_EVENTS (input_block_keys b s) = NUM_INPUT_EVENTS s"
  "input_hooks (input_block_keys b s) = input_hooks s"
  "block_keys (input_block_keys b s) = b"
  by (simp_all add: input_block_keys_def NUM_INPUT_EVENTS_def)

lemma wf_blocked_demo_state: "wf_state (input_block_keys True demo_state)"
  by (rule wf_input_block_keys [OF wf_demo_state])

section \<open>The hook loop\<close>

lemma hook_world_Nil [simp]: "hook_world app ev s [] w = w"
  by (simp add: hook_world_def)

lemma hook_world_Cons [simp]:
  "hook_world app ev s (h # hs) w =
     hook_world app ev s hs (snd (app (HookCall (hook_handler h) ev) s w))"
  by (simp add: hook_world_def)

lemma hook_returns_0 [simp]:
  "hook_returns app ev s (h # hs) w 0 = fst (app (HookCall (hook_handler h) ev) s w)"
  by (simp add: hook_returns_def)

lemma hook_returns_Suc [simp]:
  "hook_returns app ev s (h # hs) w (Suc k) =
     hook_returns app ev s hs (snd (app (HookCall (hook_handler h) ev) s w)) k"
  by (simp add: hook_returns_def)

text \<open>One call of a logged application appends one entry to the log.\<close>

lemma logged_apply:
  "app c s w = (r, w') \<Longrightarrow>
   logged app c s (w, l) =
     (r, (w', l @ [\<lparr>te_call = c, te_cursor = (mouse_x s, mouse_y s), te_result = r\<rparr>]))"
  by (simp add: logged_def)

text \<open>
  If hook \<open>k\<close> is the first to return false, the loop calls hooks \<open>0..k\<close> and stops; if
  every hook returns true, it calls them all.
\<close>

lemma run_hooks_logged_veto:
  assumes "k < length hs"
    and "\<forall>i<k. hook_returns app ev s hs w i"
    and "\<not> hook_returns app ev s hs w k"
  shows "\<exists>log. run_hooks (logged app) ev s hs (w, l) =
            (False, (hook_world app ev s (take (Suc k) hs) w, l @ log)) \<and>
          map te_call log = map (\<lambda>h. HookCall (hook_handler h) ev) (take (Suc k) hs) \<and>
          map te_result log = replicate k True @ [False] \<and>
          (\<forall>e \<in> set log. te_cursor e = (mouse_x s, mouse_y s))"
  using assms
proof (induction hs arbitrary: k w l)
  case Nil
  then show ?case by simp
next
  case (Cons h hs)
  obtain r w' where app: "app (HookCall (hook_handler h) ev) s w = (r, w')"
    by (cases "app (HookCall (hook_handler h) ev) s w")
  let ?e = "\<lparr>te_call = HookCall (hook_handler h) ev, te_cursor = (mouse_x s, mouse_y s), te_result = r\<rparr>"
  show ?case
  proof (cases k)
    case 0
    with Cons.prems app have "\<not> r" by simp
    then show ?thesis
      using 0 app by (intro exI [of _ "[?e]"]) (simp add: logged_apply [of app _ s w, OF app])
  next
    case (Suc k')
    from Cons.prems(2) Suc app have r: "r" by (auto dest: spec [of _ 0])
    have k': "k' < length hs" using Cons.prems(1) Suc by simp
    have all: "\<forall>i<k'. hook_returns app ev s hs w' i"
    proof (intro allI impI)
      fix i assume "i < k'"
      then have "hook_returns app ev s (h # hs) w (Suc i)"
        using Cons.prems(2) [rule_format, of "Suc i"] Suc by simp
      then show "hook_returns app ev s hs w' i" using app by simp
    qed
    have no: "\<not> hook_returns app ev s hs w' k'" using Cons.prems(3) Suc app by simp
    from Cons.IH [OF k' all no, of "l @ [?e]"]
    obtain log where
      run: "run_hooks (logged app) ev s hs (w', l @ [?e]) =
              (False, (hook_world app ev s (take (Suc k') hs) w', (l @ [?e]) @ log))"
      and calls: "map te_call log = map (\<lambda>h. HookCall (hook_handler h) ev) (take (Suc k') hs)"
      and res: "map te_result log = replicate k' True @ [False]"
      and cur: "\<forall>e \<in> set log. te_cursor e = (mouse_x s, mouse_y s)"
      by auto
    show ?thesis
      using Suc app r run calls res cur
      by (intro exI [of _ "?e # log"]) (simp add: logged_apply [of app _ s w, OF app])
  qed
qed

lemma run_hooks_logged_all:
  assumes "\<forall>i<length hs. hook_returns app ev s hs w i"
  shows "\<exists>log. run_hooks (logged app) ev s hs (w, l) =
            (True, (hook_world app ev s hs w, l @ log)) \<and>
          map te_call log = map (\<lambda>h. HookCall (hook_handler h) ev) hs \<and>
          map te_result log = replicate (length hs) True \<and>
          (\<forall>e \<in> set log. te_cursor e = (mouse_x s, mouse_y s))"
  using assms
proof (induction hs arbitrary: w l)
  case Nil
  then show ?case by simp
next
  case (Cons h hs)
  obtain r w' where app: "app (HookCall (hook_handler h) ev) s w = (r, w')"
    by (cases "app (HookCall (hook_handler h) ev) s w")
  let ?e = "\<lparr>te_call = HookCall (hook_handler h) ev, te_cursor = (mouse_x s, mouse_y s), te_result = r\<rparr>"
  from Cons.prems app have r: "r" by (auto dest: spec [of _ 0])
  have all: "\<forall>i<length hs. hook_returns app ev s hs w' i"
  proof (intro allI impI)
    fix i assume "i < length hs"
    then have "hook_returns app ev s (h # hs) w (Suc i)"
      using Cons.prems [rule_format, of "Suc i"] by simp
    then show "hook_returns app ev s hs w' i" using app by simp
  qed
  from Cons.IH [OF all, of "l @ [?e]"]
  obtain log where
    run: "run_hooks (logged app) ev s hs (w', l @ [?e]) =
            (True, (hook_world app ev s hs w', (l @ [?e]) @ log))"
    and calls: "map te_call log = map (\<lambda>h. HookCall (hook_handler h) ev) hs"
    and res: "map te_result log = replicate (length hs) True"
    and cur: "\<forall>e \<in> set log. te_cursor e = (mouse_x s, mouse_y s)"
    by auto
  show ?case
    using app r run calls res cur
    by (intro exI [of _ "?e # log"]) (simp add: logged_apply [of app _ s w, OF app])
qed

text \<open>Whatever the hooks return: the loop calls a prefix of the list, in order.\<close>

lemma run_hooks_logged_prefix:
  "\<exists>r w' log n. run_hooks (logged app) ev s hs (w, l) = (r, (w', l @ log)) \<and>
      n \<le> length hs \<and> (hs \<noteq> [] \<longrightarrow> 0 < n) \<and>
      map te_call log = map (\<lambda>h. HookCall (hook_handler h) ev) (take n hs) \<and>
      (\<forall>e \<in> set log. te_cursor e = (mouse_x s, mouse_y s)) \<and>
      (r \<longleftrightarrow> n = length hs \<and> (\<forall>e \<in> set log. te_result e))"
proof (induction hs arbitrary: w l)
  case Nil
  show ?case by (intro exI [of _ True] exI [of _ w] exI [of _ "[]"] exI [of _ 0]) simp
next
  case (Cons h hs)
  obtain r w' where app: "app (HookCall (hook_handler h) ev) s w = (r, w')"
    by (cases "app (HookCall (hook_handler h) ev) s w")
  let ?e = "\<lparr>te_call = HookCall (hook_handler h) ev, te_cursor = (mouse_x s, mouse_y s), te_result = r\<rparr>"
  show ?case
  proof (cases r)
    case False
    show ?thesis
      using False app
      by (intro exI [of _ False] exI [of _ w'] exI [of _ "[?e]"] exI [of _ 1]) (simp add: logged_apply [of app _ s w, OF app])
  next
    case True
    from Cons.IH [of w' "l @ [?e]"]
    obtain r2 w2 log n where
      run: "run_hooks (logged app) ev s hs (w', l @ [?e]) = (r2, (w2, (l @ [?e]) @ log))"
      and n: "n \<le> length hs"
      and calls: "map te_call log = map (\<lambda>h. HookCall (hook_handler h) ev) (take n hs)"
      and cur: "\<forall>e \<in> set log. te_cursor e = (mouse_x s, mouse_y s)"
      and res: "r2 \<longleftrightarrow> n = length hs \<and> (\<forall>e \<in> set log. te_result e)"
      by auto
    show ?thesis
      using True app run n calls cur res
      by (intro exI [of _ r2] exI [of _ w2] exI [of _ "?e # log"] exI [of _ "Suc n"])
        (simp add: logged_apply [of app _ s w, OF app])
  qed
qed

text \<open>
  With at least one hook for a known event type, the entry points run the hook loop.
\<close>

lemma input_handle_keyboard_event_hooks:
  assumes "input_initialized s" and "type < NUM_INPUT_EVENTS s"
    and "input_hooks s ! type = Some hs" and "hs \<noteq> []"
  shows "input_handle_keyboard_event app type key s w =
     (case run_hooks app (KeyboardEvent type key) s hs w of
        (completed, w') \<Rightarrow> Inr (completed \<and> \<not> block_keys s, w'))"
  using assms by (auto simp: input_handle_keyboard_event_def split: prod.splits)

lemma input_handle_mouse_event_hooks:
  assumes "input_initialized s" and "type < NUM_INPUT_EVENTS s"
    and "input_hooks s ! type = Some hs" and "hs \<noteq> []"
  shows "input_handle_mouse_event app type x y button wheel s w =
     (case run_hooks app (MouseEvent type x y (x - mouse_x s) (y - mouse_y s) (ucast button) (ucast wheel))
             (s\<lparr>mouse_x := x, mouse_y := y\<rparr>) hs w of
        (completed, w') \<Rightarrow> Inr (completed, s\<lparr>mouse_x := x, mouse_y := y\<rparr>, w'))"
  using assms by (simp add: input_handle_mouse_event_def Let_def)

text \<open>
  After an initialization, the first hook registered for a known event type makes the
  keyboard entry point return false if the keyboard-block flag is set.
\<close>

lemma blocked_after_first_hook:
  assumes blk: "block_keys s2" and win: "window \<noteq> NULL" and known: "t < NUM_INPUT_EVENTS s2"
  shows "\<exists>s3. input_add_hook t h (input_initialize window s2) = Inr s3 \<and>
           (\<exists>w'. input_handle_keyboard_event app t key s3 w = Inr (False, w'))"
proof -
  let ?i = "input_initialize window s2"
  let ?s3 = "?i\<lparr>input_hooks := (input_hooks ?i)[t := Some [\<lparr>hook_handler = h\<rparr>]]\<rparr>"
  have len: "t < length (input_hooks s2)" using known by (simp add: NUM_INPUT_EVENTS_def)
  have add: "input_add_hook t h ?i = Inr ?s3"
    using win len
    by (simp add: input_add_hook_def input_initialize_def NUM_INPUT_EVENTS_def list_create_def
        list_push_def)
  have i3: "input_initialized ?s3" using win by (simp add: input_initialize_def)
  have k3: "t < NUM_INPUT_EVENTS ?s3"
    using win len by (simp add: input_initialize_def NUM_INPUT_EVENTS_def)
  have h3: "input_hooks ?s3 ! t = Some [\<lparr>hook_handler = h\<rparr>]"
    using win len by (simp add: input_initialize_def)
  have ne: "[\<lparr>hook_handler = h\<rparr>] \<noteq> []" by simp
  have b3: "block_keys ?s3" using blk by (simp add: input_initialize_def)
  have "\<exists>w'. input_handle_keyboard_event app t key ?s3 w = Inr (False, w')"
    using b3
    by (cases "run_hooks app (KeyboardEvent t key) ?s3 [\<lparr>hook_handler = h\<rparr>] w")
      (simp add: input_handle_keyboard_event_hooks [OF i3 k3 h3 ne])
  with add show ?thesis by blast
qed

section \<open>The bind loops\<close>

text \<open>
  When every node of the list is a live record, a bind loop does not fail. It calls the
  handler of every record that passes the test of its entry point, in list order,
  whatever the earlier handlers returned, with the arguments of the dispatch and the
  user data stored in the record. The value it returns is \<open>ret\<close> unless one of the calls
  returned false.
\<close>

lemma key_bind_loop_logged:
  assumes "set ns \<subseteq> dom (key_heap s)"
  shows "\<exists>w' log. key_bind_loop (logged app) key s ns ret (w, l) =
            Inr (ret \<and> (\<forall>e \<in> set log. te_result e), (w', l @ log)) \<and>
          map te_call log =
            map (\<lambda>n. KeyBindCall (kb_handler (the (key_heap s n))) key (kb_userdata (the (key_heap s n))))
              (filter (\<lambda>n. kb_key (the (key_heap s n)) = key) ns)"
  using assms
proof (induction ns arbitrary: ret w l)
  case Nil
  show ?case by simp
next
  case (Cons node ns)
  from Cons.prems obtain bind where hb: "key_heap s node = Some bind" by auto
  have sub: "set ns \<subseteq> dom (key_heap s)" using Cons.prems by simp
  show ?case
  proof (cases "kb_key bind = key")
    case False
    from Cons.IH [OF sub, of ret w l] show ?thesis
      using False hb by auto
  next
    case True
    let ?c = "KeyBindCall (kb_handler bind) key (kb_userdata bind)"
    obtain r w1 where app: "app ?c s w = (r, w1)" by (cases "app ?c s w")
    let ?e = "\<lparr>te_call = ?c, te_cursor = (mouse_x s, mouse_y s), te_result = r\<rparr>"
    from Cons.IH [OF sub, of "if \<not> r then False else ret" w1 "l @ [?e]"]
    obtain w' log where
      run: "key_bind_loop (logged app) key s ns (if \<not> r then False else ret) (w1, l @ [?e]) =
              Inr ((if \<not> r then False else ret) \<and> (\<forall>e \<in> set log. te_result e), (w', (l @ [?e]) @ log))"
      and calls: "map te_call log =
            map (\<lambda>n. KeyBindCall (kb_handler (the (key_heap s n))) key (kb_userdata (the (key_heap s n))))
              (filter (\<lambda>n. kb_key (the (key_heap s n)) = key) ns)"
      by blast
    have step: "key_bind_loop (logged app) key s (node # ns) ret (w, l) =
        key_bind_loop (logged app) key s ns (if \<not> r then False else ret) (w1, l @ [?e])"
      using True hb by (simp add: logged_apply [of app _ s w, OF app])
    show ?thesis
      unfolding step run using True hb calls
      by (intro exI [of _ w'] exI [of _ "?e # log"]) auto
  qed
qed

lemma char_bind_loop_logged:
  assumes "set ns \<subseteq> dom (key_heap s)"
  shows "\<exists>w' log. char_bind_loop (logged app) key s ns ret (w, l) =
            Inr (ret \<and> (\<forall>e \<in> set log. te_result e), (w', l @ log)) \<and>
          map te_call log =
            map (\<lambda>n. KeyBindCall (kb_handler (the (key_heap s n))) key (kb_userdata (the (key_heap s n)))) ns"
  using assms
proof (induction ns arbitrary: ret w l)
  case Nil
  show ?case by simp
next
  case (Cons node ns)
  from Cons.prems obtain bind where hb: "key_heap s node = Some bind" by auto
  have sub: "set ns \<subseteq> dom (key_heap s)" using Cons.prems by simp
  let ?c = "KeyBindCall (kb_handler bind) key (kb_userdata bind)"
  obtain r w1 where app: "app ?c s w = (r, w1)" by (cases "app ?c s w")
  let ?e = "\<lparr>te_call = ?c, te_cursor = (mouse_x s, mouse_y s), te_result = r\<rparr>"
  from Cons.IH [OF sub, of "if \<not> r then False else ret" w1 "l @ [?e]"]
  obtain w' log where
    run: "char_bind_loop (logged app) key s ns (if \<not> r then False else ret) (w1, l @ [?e]) =
            Inr ((if \<not> r then False else ret) \<and> (\<forall>e \<in> set log. te_result e), (w', (l @ [?e]) @ log))"
    and calls: "map te_call log =
          map (\<lambda>n. KeyBindCall (kb_handler (the (key_heap s n))) key (kb_userdata (the (key_heap s n)))) ns"
    by blast
  have step: "char_bind_loop (logged app) key s (node # ns) ret (w, l) =
      char_bind_loop (logged app) key s ns (if \<not> r then False else ret) (w1, l @ [?e])"
    using hb by (simp add: logged_apply [of app _ s w, OF app])
  show ?case
    unfolding step run using hb calls
    by (intro exI [of _ w'] exI [of _ "?e # log"]) auto
qed

lemma mouse_move_loop_logged:
  assumes "set ns \<subseteq> dom (mouse_heap s)"
  shows "\<exists>w' log. mouse_move_loop (logged app) x y s ns ret (w, l) =
            Inr (ret \<and> (\<forall>e \<in> set log. te_result e), (w', l @ log)) \<and>
          map te_call log =
            map (\<lambda>n. MouseBindCall (mb_handler (the (mouse_heap s n))) MOUSE_NONE x y (mb_userdata (the (mouse_heap s n))))
              (filter (\<lambda>n. rect_is_point_in (mb_bounds (the (mouse_heap s n))) x y) ns)"
  using assms
proof (induction ns arbitrary: ret w l)
  case Nil
  show ?case by simp
next
  case (Cons node ns)
  from Cons.prems obtain bind where hb: "mouse_heap s node = Some bind" by auto
  have sub: "set ns \<subseteq> dom (mouse_heap s)" using Cons.prems by simp
  show ?case
  proof (cases "rect_is_point_in (mb_bounds bind) x y")
    case False
    from Cons.IH [OF sub, of ret w l] show ?thesis
      using False hb by auto
  next
    case True
    let ?c = "MouseBindCall (mb_handler bind) MOUSE_NONE x y (mb_userdata bind)"
    obtain r w1 where app: "app ?c s w = (r, w1)" by (cases "app ?c s w")
    let ?e = "\<lparr>te_call = ?c, te_cursor = (mouse_x s, mouse_y s), te_result = r\<rparr>"
    from Cons.IH [OF sub, of "if \<not> r then False else ret" w1 "l @ [?e]"]
    obtain w' log where
      run: "mouse_move_loop (logged app) x y s ns (if \<not> r then False else ret) (w1, l @ [?e]) =
              Inr ((if \<not> r then False else ret) \<and> (\<forall>e \<in> set log. te_result e), (w', (l @ [?e]) @ log))"
      and calls: "map te_call log =
            map (\<lambda>n. MouseBindCall (mb_handler (the (mouse_heap s n))) MOUSE_NONE x y (mb_userdata (the (mouse_heap s n))))
              (filter (\<lambda>n. rect_is_point_in (mb_bounds (the (mouse_heap s n))) x y) ns)"
      by blast
    have step: "mouse_move_loop (logged app) x y s (node # ns) ret (w, l) =
        mouse_move_loop (logged app) x y s ns (if \<not> r then False else ret) (w1, l @ [?e])"
      using True hb by (simp add: logged_apply [of app _ s w, OF app])
    show ?thesis
      unfolding step run using True hb calls
      by (intro exI [of _ w'] exI [of _ "?e # log"]) auto
  qed
qed

lemma mouse_btn_loop_logged:
  assumes "set ns \<subseteq> dom (mouse_heap s)"
  shows "\<exists>w' log. mouse_btn_loop (logged app) button x y s ns ret (w, l) =
            Inr (ret \<and> (\<forall>e \<in> set log. te_result e), (w', l @ log)) \<and>
          map te_call log =
            map (\<lambda>n. MouseBindCall (mb_handler (the (mouse_heap s n))) button x y (mb_userdata (the (mouse_heap s n))))
              (filter (\<lambda>n. mb_button (the (mouse_heap s n)) = button \<and> rect_is_point_in (mb_bounds (the (mouse_heap s n))) x y) ns)"
  using assms
proof (induction ns arbitrary: ret w l)
  case Nil
  show ?case by simp
next
  case (Cons node ns)
  from Cons.prems obtain bind where hb: "mouse_heap s node = Some bind" by auto
  have sub: "set ns \<subseteq> dom (mouse_heap s)" using Cons.prems by simp
  show ?case
  proof (cases "mb_button bind = button \<and> rect_is_point_in (mb_bounds bind) x y")
    case False
    from Cons.IH [OF sub, of ret w l] show ?thesis
      using False hb by auto
  next
    case True
    let ?c = "MouseBindCall (mb_handler bind) button x y (mb_userdata bind)"
    obtain r w1 where app: "app ?c s w = (r, w1)" by (cases "app ?c s w")
    let ?e = "\<lparr>te_call = ?c, te_cursor = (mouse_x s, mouse_y s), te_result = r\<rparr>"
    from Cons.IH [OF sub, of "if \<not> r then False else ret" w1 "l @ [?e]"]
    obtain w' log where
      run: "mouse_btn_loop (logged app) button x y s ns (if \<not> r then False else ret) (w1, l @ [?e]) =
              Inr ((if \<not> r then False else ret) \<and> (\<forall>e \<in> set log. te_result e), (w', (l @ [?e]) @ log))"
      and calls: "map te_call log =
            map (\<lambda>n. MouseBindCall (mb_handler (the (mouse_heap s n))) button x y (mb_userdata (the (mouse_heap s n))))
              (filter (\<lambda>n. mb_button (the (mouse_heap s n)) = button \<and> rect_is_point_in (mb_bounds (the (mouse_heap s n))) x y) ns)"
      by blast
    have step: "mouse_btn_loop (logged app) button x y s (node # ns) ret (w, l) =
        mouse_btn_loop (logged app) button x y s ns (if \<not> r then False else ret) (w1, l @ [?e])"
      using True hb by (simp add: logged_apply [of app _ s w, OF app])
    show ?thesis
      unfolding step run using True hb calls
      by (intro exI [of _ w'] exI [of _ "?e # log"]) auto
  qed
qed

text \<open>
  On a well-formed initialized state the six entry points return normally.
\<close>

lemma input_handle_char_bind_logged:
  assumes wf: "wf_state s" and init: "input_initialized s"
  shows "\<exists>r w' log. input_handle_char_bind (logged app) key s (w, []) = Inr (r, (w', log)) \<and>
          (r \<longleftrightarrow> (\<forall>e \<in> set log. te_result e)) \<and>
          map te_call log =
            map (\<lambda>n. KeyBindCall (kb_handler (the (key_heap s n))) key (kb_userdata (the (key_heap s n))))
              (list_nodes (char_binds s))"
proof -
  obtain ns where l: "key_bindlist BIND_CHAR s = Some ns"
    and d: "distinct ns" and sub: "set ns \<subseteq> dom (key_heap s)"
    by (rule wf_key_listD [OF wf init, of BIND_CHAR])
  have l': "char_binds s = Some ns" using l by (simp add: key_bindlist_def)
  from char_bind_loop_logged [OF sub, of app key True w "[]"]
  show ?thesis
    by (simp add: input_handle_char_bind_def init l' list_nodes_def)
qed

lemma input_handle_key_down_bind_logged:
  assumes wf: "wf_state s" and init: "input_initialized s"
  shows "\<exists>r w' log. input_handle_key_down_bind (logged app) key s (w, []) = Inr (r, (w', log)) \<and>
          (r \<longleftrightarrow> (\<forall>e \<in> set log. te_result e)) \<and>
          map te_call log =
            map (\<lambda>n. KeyBindCall (kb_handler (the (key_heap s n))) key (kb_userdata (the (key_heap s n))))
              (filter (\<lambda>n. kb_key (the (key_heap s n)) = key) (list_nodes (key_down_binds s)))"
proof -
  obtain ns where l: "key_bindlist BIND_KEYDOWN s = Some ns"
    and d: "distinct ns" and sub: "set ns \<subseteq> dom (key_heap s)"
    by (rule wf_key_listD [OF wf init, of BIND_KEYDOWN])
  have l': "key_down_binds s = Some ns" using l by (simp add: key_bindlist_def)
  from key_bind_loop_logged [OF sub, of app key True w "[]"]
  show ?thesis
    by (simp add: input_handle_key_down_bind_def init l' list_nodes_def)
qed

lemma input_handle_key_up_bind_logged:
  assumes wf: "wf_state s" and init: "input_initialized s"
  shows "\<exists>r w' log. input_handle_key_up_bind (logged app) key s (w, []) = Inr (r, (w', log)) \<and>
          (r \<longleftrightarrow> (\<forall>e \<in> set log. te_result e)) \<and>
          map te_call log =
            map (\<lambda>n. KeyBindCall (kb_handler (the (key_heap s n))) key (kb_userdata (the (key_heap s n))))
              (filter (\<lambda>n. kb_key (the (key_heap s n)) = key) (list_nodes (key_up_binds s)))"
proof -
  obtain ns where l: "key_bindlist BIND_KEYUP s = Some ns"
    and d: "distinct ns" and sub: "set ns \<subseteq> dom (key_heap s)"
    by (rule wf_key_listD [OF wf init, of BIND_KEYUP])
  have l': "key_up_binds s = Some ns" using l by (simp add: key_bindlist_def)
  from key_bind_loop_logged [OF sub, of app key True w "[]"]
  show ?thesis
    by (simp add: input_handle_key_up_bind_def init l' list_nodes_def)
qed

lemma input_handle_mouse_move_bind_logged:
  assumes wf: "wf_state s" and init: "input_initialized s"
  shows "\<exists>r w' log. input_handle_mouse_move_bind (logged app) x y s (w, []) = Inr (r, (w', log)) \<and>
          (r \<longleftrightarrow> (\<forall>e \<in> set log. te_result e)) \<and>
          map te_call log =
            map (\<lambda>n. MouseBindCall (mb_handler (the (mouse_heap s n))) MOUSE_NONE x y (mb_userdata (the (mouse_heap s n))))
              (filter (\<lambda>n. rect_is_point_in (mb_bounds (the (mouse_heap s n))) x y)
                 (list_nodes (mouse_move_binds s)))"
proof -
  obtain ns where l: "mouse_bindlist BIND_MOVE s = Some ns"
    and d: "distinct ns" and sub: "set ns \<subseteq> dom (mouse_heap s)"
    by (rule wf_mouse_listD [OF wf init, of BIND_MOVE])
  have l': "mouse_move_binds s = Some ns" using l by (simp add: mouse_bindlist_def)
  from mouse_move_loop_logged [OF sub, of app x y True w "[]"]
  show ?thesis
    by (simp add: input_handle_mouse_move_bind_def init l' list_nodes_def)
qed

lemma input_handle_mouse_up_bind_logged:
  assumes wf: "wf_state s" and init: "input_initialized s"
  shows "\<exists>r w' log. input_handle_mouse_up_bind (logged app) button x y s (w, []) = Inr (r, (w', log)) \<and>
          (r \<longleftrightarrow> (\<forall>e \<in> set log. te_result e)) \<and>
          map te_call log =
            map (\<lambda>n. MouseBindCall (mb_handler (the (mouse_heap s n))) button x y (mb_userdata (the (mouse_heap s n))))
              (filter (\<lambda>n. mb_button (the (mouse_heap s n)) = button \<and>
                           rect_is_point_in (mb_bounds (the (mouse_heap s n))) x y)
                 (list_nodes (mouse_up_binds s)))"
proof -
  obtain ns where l: "mouse_bindlist BIND_BTNUP s = Some ns"
    and d: "distinct ns" and sub: "set ns \<subseteq> dom (mouse_heap s)"
    by (rule wf_mouse_listD [OF wf init, of BIND_BTNUP])
  have l': "mouse_up_binds s = Some ns" using l by (simp add: mouse_bindlist_def)
  from mouse_btn_loop_logged [OF sub, of app button x y True w "[]"]
  show ?thesis
    by (simp add: input_handle_mouse_up_bind_def init l' list_nodes_def)
qed

lemma input_handle_mouse_down_bind_logged:
  assumes wf: "wf_state s" and init: "input_initialized s"
  shows "\<exists>r w' log. input_handle_mouse_down_bind (logged app) button x y s (w, []) = Inr (r, (w', log)) \<and>
          (r \<longleftrightarrow> (\<forall>e \<in> set log. te_result e)) \<and>
          map te_call log =
            map (\<lambda>n. MouseBindCall (mb_handler (the (mouse_heap s n))) button x y (mb_userdata (the (mouse_heap s n))))
              (filter (\<lambda>n. mb_button (the (mouse_heap s n)) = button \<and>
                           rect_is_point_in (mb_bounds (the (mouse_heap s n))) x y)
                 (list_nodes (mouse_down_binds s)))"
proof -
  obtain ns where l: "mouse_bindlist BIND_BTNDOWN s = Some ns"
    and d: "distinct ns" and sub: "set ns \<subseteq> dom (mouse_heap s)"
    by (rule wf_mouse_listD [OF wf init, of BIND_BTNDOWN])
  have l': "mouse_down_binds s = Some ns" using l by (simp add: mouse_bindlist_def)
  from mouse_btn_loop_logged [OF sub, of app button x y True w "[]"]
  show ?thesis
    by (simp add: input_handle_mouse_down_bind_def init l' list_nodes_def)
qed

section \<open>The uninitialized library\<close>

text \<open>
  While the library is uninitialized, registration returns a null handle or does
  nothing, removal by selector does nothing, removal through a handle to a live record
  does nothing, and every dispatch entry point returns true without calling a handler
  (the application state is returned untouched). The two event entry points also return
  true, leaving the state alone, for an unknown event type or an empty hook list.
\<close>

lemma uninitialized_hooks_neutral:
  assumes "\<not> input_initialized s"
  shows "input_add_hook t h s = Inr s" and "input_remove_hook t h s = Inr s"
  using assms by (simp_all add: input_add_hook_def input_remove_hook_def)

lemma uninitialized_add_neutral:
  assumes "\<not> input_initialized s"
  shows "input_add_char_bind key func data s = (NULL, s)"
    and "input_add_key_up_bind key func data s = (NULL, s)"
    and "input_add_key_down_bind key func data s = (NULL, s)"
    and "input_add_mouse_move_bind area mfunc data s = (NULL, s)"
    and "input_add_mousebtn_up_bind button area mfunc data s = (NULL, s)"
    and "input_add_mousebtn_down_bind button area mfunc data s = (NULL, s)"
  using assms
  by (simp_all add: input_add_char_bind_def input_add_key_up_bind_def input_add_key_down_bind_def
      input_add_mouse_move_bind_def input_add_mousebtn_up_bind_def input_add_mousebtn_down_bind_def
      input_add_key_bind_def input_add_mouse_bind_def)

lemma uninitialized_remove_neutral:
  assumes "\<not> input_initialized s"
  shows "input_remove_char_bind key func s = Inr s"
    and "input_remove_key_up_bind key func s = Inr s"
    and "input_remove_key_down_bind key func s = Inr s"
    and "input_remove_mouse_move_bind mfunc s = Inr s"
    and "input_remove_mousebtn_up_bind button mfunc s = Inr s"
    and "input_remove_mousebtn_down_bind button mfunc s = Inr s"
    and "kbind \<noteq> NULL \<Longrightarrow> key_heap s kbind = Some kb \<Longrightarrow> input_remove_key_bind kbind s = Inr s"
    and "mbind \<noteq> NULL \<Longrightarrow> mouse_heap s mbind = Some mb \<Longrightarrow> input_remove_mouse_bind mbind s = Inr s"
  using assms
  by (simp_all add: input_remove_char_bind_def input_remove_key_up_bind_def
      input_remove_key_down_bind_def input_remove_mouse_move_bind_def
      input_remove_mousebtn_up_bind_def input_remove_mousebtn_down_bind_def
      input_remove_key_bind_def input_remove_mouse_bind_def
      input_remove_key_bind_from_list_def input_remove_mouse_bind_from_list_def)

lemma uninitialized_dispatch_neutral:
  assumes "\<not> input_initialized s"
  shows "input_handle_keyboard_event app t key s w = Inr (True, w)"
    and "input_handle_mouse_event app t x y button wheel s w = Inr (True, s, w)"
    and "input_handle_char_bind app key s w = Inr (True, w)"
    and "input_handle_key_down_bind app key s w = Inr (True, w)"
    and "input_handle_key_up_bind app key s w = Inr (True, w)"
    and "input_handle_mouse_move_bind app x y s w = Inr (True, w)"
    and "input_handle_mouse_up_bind app button x y s w = Inr (True, w)"
    and "input_handle_mouse_down_bind app button x y s w = Inr (True, w)"
  using assms
  by (simp_all add: input_handle_keyboard_event_def input_handle_mouse_event_def
      input_handle_char_bind_def input_handle_key_down_bind_def input_handle_key_up_bind_def
      input_handle_mouse_move_bind_def input_handle_mouse_up_bind_def
      input_handle_mouse_down_bind_def)

lemma event_without_hooks_neutral:
  assumes "NUM_INPUT_EVENTS s \<le> t \<or> input_hooks s ! t = Some []"
  shows "input_handle_keyboard_event app t key s w = Inr (True, w)"
    and "input_handle_mouse_event app t x y button wheel s w = Inr (True, s, w)"
  using assms
  by (auto simp add: input_handle_keyboard_event_def input_handle_mouse_event_def)

section \<open>What the public functions leave alone\<close>

text \<open>
  No function writes a record of the key-bind heap once it is registered: a call either
  frees the record or leaves it as it is. In the mouse-bind heap a call either frees a
  record or leaves its type and its user data as they are, with one exception:
  \<open>input_set_mousebind_param\<close> on the record's handle stores the new user data. Addresses
  are not handed out twice, so this holds along every script.
\<close>

lemma free_nodes_Some:
  "free_nodes ns h = Inr h' \<Longrightarrow> h' a = Some v \<Longrightarrow> h a = Some v"
proof (induction ns arbitrary: h)
  case Nil
  then show ?case by simp
next
  case (Cons n ns)
  from Cons.prems(1) obtain u where "h n = Some u" and "free_nodes ns (h(n := None)) = Inr h'"
    by (auto split: option.splits)
  from Cons.IH [OF this(2) Cons.prems(2)] show ?case by (simp split: if_splits)
qed

lemma input_cleanup_list_Some:
  "input_cleanup_list l h = Inr h' \<Longrightarrow> h' a = Some v \<Longrightarrow> h a = Some v"
  by (cases l) (auto simp: input_cleanup_list_def dest: free_nodes_Some)

lemma remove_key_loop_Some:
  "remove_key_loop key func ns h = Inr (ns', h') \<Longrightarrow> h' a = Some v \<Longrightarrow> h a = Some v"
proof (induction ns arbitrary: h ns')
  case Nil
  then show ?case by simp
next
  case (Cons n ns)
  from Cons.prems(1) obtain b where hb: "h n = Some b" by (auto split: option.splits)
  show ?case
  proof (cases "kb_key b = key \<and> kb_handler b = func")
    case True
    then have "remove_key_loop key func ns (h(n := None)) = Inr (ns', h')"
      using Cons.prems(1) hb by simp
    from Cons.IH [OF this Cons.prems(2)] show ?thesis by (simp split: if_splits)
  next
    case False
    then obtain ns1 where "remove_key_loop key func ns h = Inr (ns1, h')"
      using Cons.prems(1) hb by (auto simp: bindE_def split: sum.splits)
    from Cons.IH [OF this Cons.prems(2)] show ?thesis .
  qed
qed

lemma remove_mouse_loop_Some:
  "remove_mouse_loop button func ns h = Inr (ns', h') \<Longrightarrow> h' a = Some v \<Longrightarrow> h a = Some v"
proof (induction ns arbitrary: h ns')
  case Nil
  then show ?case by simp
next
  case (Cons n ns)
  from Cons.prems(1) obtain b where hb: "h n = Some b" by (auto split: option.splits)
  show ?case
  proof (cases "mb_button b = button \<and> mb_handler b \<noteq> func")
    case True
    then have "remove_mouse_loop button func ns (h(n := None)) = Inr (ns', h')"
      using Cons.prems(1) hb by simp
    from Cons.IH [OF this Cons.prems(2)] show ?thesis by (simp split: if_splits)
  next
    case False
    then obtain ns1 where "remove_mouse_loop button func ns h = Inr (ns1, h')"
      using Cons.prems(1) hb by (auto simp: bindE_def split: sum.splits)
    from Cons.IH [OF this Cons.prems(2)] show ?thesis .
  qed
qed

lemma input_remove_key_bind_from_list_frame:
  assumes "input_remove_key_bind_from_list key func type s = Inr s'"
  shows "heap_top s' = heap_top s" and "mouse_heap s' = mouse_heap s"
    and "key_heap s' a = Some v \<Longrightarrow> key_heap s a = Some v"
proof -
  have "s' = s \<or> (\<exists>ns ns' h'. remove_key_loop key func ns (key_heap s) = Inr (ns', h') \<and>
                     s' = key_bindlist_update type ns' (s\<lparr>key_heap := h'\<rparr>))"
    using assms
    by (auto simp: input_remove_key_bind_from_list_def bindE_def
        split: if_splits option.splits sum.splits)
  then show "heap_top s' = heap_top s" and "mouse_heap s' = mouse_heap s"
    and "key_heap s' a = Some v \<Longrightarrow> key_heap s a = Some v"
    by (auto simp: key_bindlist_update_simps key_bindlist_update_other dest: remove_key_loop_Some)
qed

lemma input_remove_mouse_bind_from_list_frame:
  assumes "input_remove_mouse_bind_from_list button func type s = Inr s'"
  shows "heap_top s' = heap_top s" and "key_heap s' = key_heap s"
    and "mouse_heap s' a = Some v \<Longrightarrow> mouse_heap s a = Some v"
proof -
  have "s' = s \<or> (\<exists>ns ns' h'. remove_mouse_loop button func ns (mouse_heap s) = Inr (ns', h') \<and>
                     s' = mouse_bindlist_update type ns' (s\<lparr>mouse_heap := h'\<rparr>))"
    using assms
    by (auto simp: input_remove_mouse_bind_from_list_def bindE_def
        split: if_splits option.splits sum.splits)
  then show "heap_top s' = heap_top s" and "key_heap s' = key_heap s"
    and "mouse_heap s' a = Some v \<Longrightarrow> mouse_heap s a = Some v"
    by (auto simp: mouse_bindlist_update_simps mouse_bindlist_update_other dest: remove_mouse_loop_Some)
qed

lemma input_shutdown_heaps:
  assumes "input_shutdown s = Inr s'"
  shows "heap_top s' = heap_top s"
    and "key_heap s' a = Some v \<Longrightarrow> key_heap s a = Some v"
    and "mouse_heap s' a = Some w \<Longrightarrow> mouse_heap s a = Some w"
proof -
  have "s' = s \<or> (\<exists>kh1 kh2 kh3 mh1 mh2 mh3.
      input_cleanup_list (char_binds s) (key_heap s) = Inr kh1 \<and>
      input_cleanup_list (key_up_binds s) kh1 = Inr kh2 \<and>
      input_cleanup_list (key_down_binds s) kh2 = Inr kh3 \<and>
      input_cleanup_list (mouse_up_binds s) (mouse_heap s) = Inr mh1 \<and>
      input_cleanup_list (mouse_down_binds s) mh1 = Inr mh2 \<and>
      input_cleanup_list (mouse_move_binds s) mh2 = Inr mh3 \<and>
      heap_top s' = heap_top s \<and> key_heap s' = kh3 \<and> mouse_heap s' = mh3)"
    using assms
    by (auto simp: input_shutdown_def bindE_def split: if_splits sum.splits)
  then show "heap_top s' = heap_top s"
    and "key_heap s' a = Some v \<Longrightarrow> key_heap s a = Some v"
    and "mouse_heap s' a = Some w \<Longrightarrow> mouse_heap s a = Some w"
    by (auto dest!: input_cleanup_list_Some)
qed

lemma input_add_key_bind_frame:
  assumes "input_add_key_bind key func data type s = (bind, s')"
  shows "heap_top s \<le> heap_top s'" and "mouse_heap s' = mouse_heap s"
    and "a \<le> heap_top s \<Longrightarrow> key_heap s' a = key_heap s a"
  using assms
  by (auto simp: input_add_key_bind_def mem_alloc_clean_def key_bindlist_update_simps
      key_bindlist_update_other split: if_splits option.splits)

lemma input_add_mouse_bind_frame:
  assumes "input_add_mouse_bind button area func data type s = (bind, s')"
  shows "heap_top s \<le> heap_top s'" and "key_heap s' = key_heap s"
    and "a \<le> heap_top s \<Longrightarrow> mouse_heap s' a = mouse_heap s a"
  using assms
  by (auto simp: input_add_mouse_bind_def mem_alloc_clean_def mouse_bindlist_update_simps
      mouse_bindlist_update_other split: if_splits option.splits)

lemma input_set_mousebind_frame:
  shows "input_set_mousebind_button bind button s = Inr s' \<Longrightarrow>
           heap_top s' = heap_top s \<and> key_heap s' = key_heap s \<and>
           (\<forall>a b'. mouse_heap s' a = Some b' \<longrightarrow>
              (\<exists>b. mouse_heap s a = Some b \<and> mb_type b' = mb_type b \<and> mb_userdata b' = mb_userdata b))"
    and "input_set_mousebind_rect bind area s = Inr s' \<Longrightarrow>
           heap_top s' = heap_top s \<and> key_heap s' = key_heap s \<and>
           (\<forall>a b'. mouse_heap s' a = Some b' \<longrightarrow>
              (\<exists>b. mouse_heap s a = Some b \<and> mb_type b' = mb_type b \<and> mb_userdata b' = mb_userdata b))"
    and "input_set_mousebind_func bind func s = Inr s' \<Longrightarrow>
           heap_top s' = heap_top s \<and> key_heap s' = key_heap s \<and>
           (\<forall>a b'. mouse_heap s' a = Some b' \<longrightarrow>
              (\<exists>b. mouse_heap s a = Some b \<and> mb_type b' = mb_type b \<and> mb_userdata b' = mb_userdata b))"
    and "input_set_mousebind_param bind data s = Inr s' \<Longrightarrow>
           heap_top s' = heap_top s \<and> key_heap s' = key_heap s \<and>
           (\<forall>a b'. mouse_heap s' a = Some b' \<longrightarrow>
              (\<exists>b. mouse_heap s a = Some b \<and> mb_type b' = mb_type b \<and>
                   mb_userdata b' = (if bind = a \<and> a \<noteq> NULL then data else mb_userdata b)))"
  by (auto simp: input_set_mousebind_button_def input_set_mousebind_rect_def
      input_set_mousebind_func_def input_set_mousebind_param_def NULL_def
      split: if_splits option.splits)

lemma run_api_heap_top:
  assumes "run_api c s = Inr s'"
  shows "heap_top s \<le> heap_top s'"
proof (cases c)
  case (Initialize window)
  then show ?thesis using assms by (auto simp: input_initialize_def)
next
  case Shutdown
  then show ?thesis using assms input_shutdown_heaps(1) [of s s'] by simp
next
  case (AddHook t h)
  then show ?thesis using assms by (auto simp: input_add_hook_def split: if_splits option.splits)
next
  case (RemoveHook t h)
  then show ?thesis using assms by (auto simp: input_remove_hook_def split: if_splits option.splits)
next
  case (AddKeyBind key func data type)
  then show ?thesis
    using assms input_add_key_bind_frame(1) [of key func data type s]
    by (cases "input_add_key_bind key func data type s") auto
next
  case (AddMouseBind button area func data type)
  then show ?thesis
    using assms input_add_mouse_bind_frame(1) [of button area func data type s]
    by (cases "input_add_mouse_bind button area func data type s") auto
next
  case (RemoveKeyBindFromList key func type)
  then show ?thesis using assms input_remove_key_bind_from_list_frame(1) [of key func type s s'] by simp
next
  case (RemoveKeyBind bind)
  then show ?thesis
    using assms input_remove_key_bind_from_list_frame(1) [of _ _ _ s s']
    by (auto simp: input_remove_key_bind_def split: if_splits option.splits)
next
  case (RemoveMouseBindFromList button func type)
  then show ?thesis using assms input_remove_mouse_bind_from_list_frame(1) [of button func type s s'] by simp
next
  case (RemoveMouseBind bind)
  then show ?thesis
    using assms input_remove_mouse_bind_from_list_frame(1) [of _ _ _ s s']
    by (auto simp: input_remove_mouse_bind_def split: if_splits option.splits)
next
  case (SetMousebindButton bind button)
  then show ?thesis using assms input_set_mousebind_frame(1) [of bind button s s'] by simp
next
  case (SetMousebindRect bind area)
  then show ?thesis using assms input_set_mousebind_frame(2) [of bind area s s'] by simp
next
  case (SetMousebindFunc bind func)
  then show ?thesis using assms input_set_mousebind_frame(3) [of bind func s s'] by simp
next
  case (SetMousebindParam bind data)
  then show ?thesis using assms input_set_mousebind_frame(4) [of bind data s s'] by simp
next
  case (BlockKeys b)
  then show ?thesis using assms by (auto simp: input_block_keys_def)
next
  case (MoveCursor x y)
  then show ?thesis using assms by auto
next
  case (ShowCursor b)
  then show ?thesis using assms by auto
qed

lemma run_api_key_record:
  assumes run: "run_api c s = Inr s'" and le: "bind \<le> heap_top s"
    and live: "key_heap s' bind = Some b"
  shows "key_heap s bind = Some b"
proof (cases c)
  case (Initialize window)
  then show ?thesis using run live by (auto simp: input_initialize_def split: if_splits)
next
  case Shutdown
  then show ?thesis using run live input_shutdown_heaps(2) [of s s' bind b] by simp
next
  case (AddHook t h)
  then show ?thesis using run live by (auto simp: input_add_hook_def split: if_splits option.splits)
next
  case (RemoveHook t h)
  then show ?thesis using run live by (auto simp: input_remove_hook_def split: if_splits option.splits)
next
  case (AddKeyBind key func data type)
  then show ?thesis
    using run live input_add_key_bind_frame(3) [of key func data type s _ _ bind, OF _ le]
    by (cases "input_add_key_bind key func data type s") auto
next
  case (AddMouseBind button area func data type)
  then show ?thesis
    using run live input_add_mouse_bind_frame(2) [of button area func data type s]
    by (cases "input_add_mouse_bind button area func data type s") auto
next
  case (RemoveKeyBindFromList key func type)
  then show ?thesis
    using run live input_remove_key_bind_from_list_frame(3) [of key func type s s' bind b] by simp
next
  case (RemoveKeyBind h)
  then show ?thesis
    using run live input_remove_key_bind_from_list_frame(3) [of _ _ _ s s' bind b]
    by (auto simp: input_remove_key_bind_def split: if_splits option.splits)
next
  case (RemoveMouseBindFromList button func type)
  then show ?thesis
    using run live input_remove_mouse_bind_from_list_frame(2) [of button func type s s'] by simp
next
  case (RemoveMouseBind h)
  then show ?thesis
    using run live input_remove_mouse_bind_from_list_frame(2) [of _ _ _ s s']
    by (auto simp: input_remove_mouse_bind_def split: if_splits option.splits)
next
  case (SetMousebindButton h button)
  then show ?thesis using run live input_set_mousebind_frame(1) [of h button s s'] by simp
next
  case (SetMousebindRect h area)
  then show ?thesis using run live input_set_mousebind_frame(2) [of h area s s'] by simp
next
  case (SetMousebindFunc h func)
  then show ?thesis using run live input_set_mousebind_frame(3) [of h func s s'] by simp
next
  case (SetMousebindParam h data)
  then show ?thesis using run live input_set_mousebind_frame(4) [of h data s s'] by simp
next
  case (BlockKeys b)
  then show ?thesis using run live by (auto simp: input_block_keys_def)
next
  case (MoveCursor x y)
  then show ?thesis using run live by auto
next
  case (ShowCursor b)
  then show ?thesis using run live by auto
qed

lemma run_api_mouse_record:
  assumes run: "run_api c s = Inr s'" and le: "bind \<le> heap_top s" and nn: "bind \<noteq> NULL"
    and live: "mouse_heap s' bind = Some b'"
  shows "\<exists>b. mouse_heap s bind = Some b \<and> mb_type b' = mb_type b \<and>
           mb_userdata b' = param_after bind (mb_userdata b) [c]"
proof (cases c)
  case (Initialize window)
  then show ?thesis using run live by (auto simp: input_initialize_def split: if_splits)
next
  case Shutdown
  then show ?thesis using run live input_shutdown_heaps(3) [of s s' bind b'] by simp
next
  case (AddHook t h)
  then show ?thesis using run live by (auto simp: input_add_hook_def split: if_splits option.splits)
next
  case (RemoveHook t h)
  then show ?thesis using run live by (auto simp: input_remove_hook_def split: if_splits option.splits)
next
  case (AddKeyBind key func data type)
  then show ?thesis
    using run live input_add_key_bind_frame(2) [of key func data type s]
    by (cases "input_add_key_bind key func data type s") auto
next
  case (AddMouseBind button area func data type)
  then show ?thesis
    using run live input_add_mouse_bind_frame(3) [of button area func data type s _ _ bind, OF _ le]
    by (cases "input_add_mouse_bind button area func data type s") auto
next
  case (RemoveKeyBindFromList key func type)
  then show ?thesis
    using run live input_remove_key_bind_from_list_frame(2) [of key func type s s'] by simp
next
  case (RemoveKeyBind h)
  then show ?thesis
    using run live input_remove_key_bind_from_list_frame(2) [of _ _ _ s s']
    by (auto simp: input_remove_key_bind_def split: if_splits option.splits)
next
  case (RemoveMouseBindFromList button func type)
  then show ?thesis
    using run live input_remove_mouse_bind_from_list_frame(3) [of button func type s s' bind b'] by simp
next
  case (RemoveMouseBind h)
  then show ?thesis
    using run live input_remove_mouse_bind_from_list_frame(3) [of _ _ _ s s' bind b']
    by (auto simp: input_remove_mouse_bind_def split: if_splits option.splits)
next
  case (SetMousebindButton h button)
  then show ?thesis using run live input_set_mousebind_frame(1) [of h button s s'] by auto
next
  case (SetMousebindRect h area)
  then show ?thesis using run live input_set_mousebind_frame(2) [of h area s s'] by auto
next
  case (SetMousebindFunc h func)
  then show ?thesis using run live input_set_mousebind_frame(3) [of h func s s'] by auto
next
  case (SetMousebindParam h data)
  then show ?thesis using run live nn input_set_mousebind_frame(4) [of h data s s'] by fastforce
next
  case (BlockKeys b)
  then show ?thesis using run live by (auto simp: input_block_keys_def)
next
  case (MoveCursor x y)
  then show ?thesis using run live by auto
next
  case (ShowCursor b)
  then show ?thesis using run live by auto
qed

lemma param_after_step: "param_after bind data (c # cs) = param_after bind (param_after bind data [c]) cs"
  by (cases c) simp_all

lemma run_script_key_record:
  "run_script cs s = Inr s' \<Longrightarrow> bind \<le> heap_top s \<Longrightarrow> key_heap s' bind = Some b \<Longrightarrow>
   key_heap s bind = Some b"
proof (induction cs arbitrary: s)
  case Nil
  then show ?case by simp
next
  case (Cons c cs)
  from Cons.prems(1) obtain s1 where c: "run_api c s = Inr s1" and cs: "run_script cs s1 = Inr s'"
    by (auto simp: bindE_def split: sum.splits)
  have le1: "bind \<le> heap_top s1" using run_api_heap_top [OF c] Cons.prems(2) by simp
  from Cons.IH [OF cs le1 Cons.prems(3)] have "key_heap s1 bind = Some b" .
  from run_api_key_record [OF c Cons.prems(2) this] show ?case .
qed

lemma run_script_mouse_record:
  "run_script cs s = Inr s' \<Longrightarrow> bind \<le> heap_top s \<Longrightarrow> bind \<noteq> NULL \<Longrightarrow>
   mouse_heap s' bind = Some b' \<Longrightarrow>
   \<exists>b. mouse_heap s bind = Some b \<and> mb_type b' = mb_type b \<and>
       mb_userdata b' = param_after bind (mb_userdata b) cs"
proof (induction cs arbitrary: s)
  case Nil
  then show ?case by simp
next
  case (Cons c cs)
  from Cons.prems(1) obtain s1 where c: "run_api c s = Inr s1" and cs: "run_script cs s1 = Inr s'"
    by (auto simp: bindE_def split: sum.splits)
  have le1: "bind \<le> heap_top s1" using run_api_heap_top [OF c] Cons.prems(2) by simp
  from Cons.IH [OF cs le1 Cons.prems(3) Cons.prems(4)] obtain b1 where
    b1: "mouse_heap s1 bind = Some b1" "mb_type b' = mb_type b1"
      "mb_userdata b' = param_after bind (mb_userdata b1) cs"
    by blast
  from run_api_mouse_record [OF c Cons.prems(2) Cons.prems(3) b1(1)] obtain b where
    b: "mouse_heap s bind = Some b" "mb_type b1 = mb_type b"
      "mb_userdata b1 = param_after bind (mb_userdata b) [c]"
    by blast
  show ?case
    using b b1 param_after_step [of bind "mb_userdata b" c cs] by simp
qed

text \<open>Registration returns a fresh non-null handle to the record it stores.\<close>

lemma input_add_key_bind_fresh:
  assumes wf: "wf_state s" and init: "input_initialized s"
    and add: "input_add_key_bind key func data type s = (bind, s')"
  shows "bind \<noteq> NULL" and "bind \<le> heap_top s'"
    and "key_heap s' bind =
           Some \<lparr>kb_type = type, kb_key = key, kb_handler = func, kb_userdata = data\<rparr>"
    and "list_nodes (key_bindlist type s') = list_nodes (key_bindlist type s) @ [bind]"
proof -
  obtain ns where l: "key_bindlist type s = Some ns"
    and d: "distinct ns" and sub: "set ns \<subseteq> dom (key_heap s)"
    by (rule wf_key_listD [OF wf init, of type])
  show "bind \<noteq> NULL" and "bind \<le> heap_top s'"
    and "key_heap s' bind =
           Some \<lparr>kb_type = type, kb_key = key, kb_handler = func, kb_userdata = data\<rparr>"
    and "list_nodes (key_bindlist type s') = list_nodes (key_bindlist type s) @ [bind]"
    using add
    by (auto simp: input_add_key_bind_def init l mem_alloc_clean_def list_push_def NULL_def
        key_bindlist_update_simps key_bindlist_update_other list_nodes_def)
qed

lemma input_add_mouse_bind_fresh:
  assumes wf: "wf_state s" and init: "input_initialized s"
    and add: "input_add_mouse_bind button area func data type s = (bind, s')"
  shows "bind \<noteq> NULL" and "bind \<le> heap_top s'"
    and "mouse_heap s' bind =
           Some \<lparr>mb_type = type, mb_bounds = area, mb_button = button, mb_handler = func,
                 mb_userdata = data\<rparr>"
    and "list_nodes (mouse_bindlist type s') = list_nodes (mouse_bindlist type s) @ [bind]"
proof -
  obtain ns where l: "mouse_bindlist type s = Some ns"
    and d: "distinct ns" and sub: "set ns \<subseteq> dom (mouse_heap s)"
    by (rule wf_mouse_listD [OF wf init, of type])
  show "bind \<noteq> NULL" and "bind \<le> heap_top s'"
    and "mouse_heap s' bind =
           Some \<lparr>mb_type = type, mb_bounds = area, mb_button = button, mb_handler = func,
                 mb_userdata = data\<rparr>"
    and "list_nodes (mouse_bindlist type s') = list_nodes (mouse_bindlist type s) @ [bind]"
    using add
    by (auto simp: input_add_mouse_bind_def init l mem_alloc_clean_def list_push_def NULL_def
        mouse_bindlist_update_simps mouse_bindlist_update_other list_nodes_def)
qed

section \<open>The claims\<close>

subsection \<open>Bulk removal by selector\<close>

text \<open>
  Claim C1. The bulk mouse-bind removal routine \<open>input_remove_mouse_bind_from_list\<close>,
  which \<open>input_remove_mouse_move_bind\<close>, \<open>input_remove_mousebtn_up_bind\<close>,
  \<open>input_remove_mousebtn_down_bind\<close> and \<open>input_remove_mouse_bind\<close> all reduce to, removes
  from the selected list, and frees, exactly the records whose stored button equals the
  requested button and whose stored handler differs from the requested handler. The
  keyboard routine removes exactly the records whose stored key and handler both equal
  the requested ones. Nothing else of the state changes.
\<close>

theorem bulk_removal_selectors:
  assumes "wf_state s" and "input_initialized s"
  shows
    "input_remove_mouse_bind_from_list button mfunc mtype s =
       Inr (mouse_bindlist_update mtype
              (filter (\<lambda>n. \<not> (mb_button (the (mouse_heap s n)) = button \<and>
                                mb_handler (the (mouse_heap s n)) \<noteq> mfunc))
                 (list_nodes (mouse_bindlist mtype s)))
              (s\<lparr>mouse_heap :=
                   (\<lambda>a. if a \<in> set (list_nodes (mouse_bindlist mtype s)) \<and>
                            mb_button (the (mouse_heap s a)) = button \<and>
                            mb_handler (the (mouse_heap s a)) \<noteq> mfunc
                         then None else mouse_heap s a)\<rparr>)) \<and>
     input_remove_mouse_move_bind mfunc s =
       input_remove_mouse_bind_from_list MOUSE_NONE mfunc BIND_MOVE s \<and>
     input_remove_mousebtn_up_bind button mfunc s =
       input_remove_mouse_bind_from_list button mfunc BIND_BTNUP s \<and>
     input_remove_mousebtn_down_bind button mfunc s =
       input_remove_mouse_bind_from_list button mfunc BIND_BTNDOWN s \<and>
     (\<forall>b. bind \<noteq> NULL \<and> mouse_heap s bind = Some b \<longrightarrow>
        input_remove_mouse_bind bind s =
          input_remove_mouse_bind_from_list (mb_button b) (mb_handler b) (mb_type b) s) \<and>
     input_remove_key_bind_from_list key kfunc ktype s =
       Inr (key_bindlist_update ktype
              (filter (\<lambda>n. \<not> (kb_key (the (key_heap s n)) = key \<and>
                                kb_handler (the (key_heap s n)) = kfunc))
                 (list_nodes (key_bindlist ktype s)))
              (s\<lparr>key_heap :=
                   (\<lambda>a. if a \<in> set (list_nodes (key_bindlist ktype s)) \<and>
                            kb_key (the (key_heap s a)) = key \<and>
                            kb_handler (the (key_heap s a)) = kfunc
                         then None else key_heap s a)\<rparr>))"
proof (intro conjI allI impI)
  show "input_remove_mouse_bind_from_list button mfunc mtype s =
       Inr (mouse_bindlist_update mtype
              (filter (\<lambda>n. \<not> (mb_button (the (mouse_heap s n)) = button \<and>
                                mb_handler (the (mouse_heap s n)) \<noteq> mfunc))
                 (list_nodes (mouse_bindlist mtype s)))
              (s\<lparr>mouse_heap :=
                   (\<lambda>a. if a \<in> set (list_nodes (mouse_bindlist mtype s)) \<and>
                            mb_button (the (mouse_heap s a)) = button \<and>
                            mb_handler (the (mouse_heap s a)) \<noteq> mfunc
                         then None else mouse_heap s a)\<rparr>))"
    by (rule mouse_removal_exact [OF assms])
  show "input_remove_key_bind_from_list key kfunc ktype s =
       Inr (key_bindlist_update ktype
              (filter (\<lambda>n. \<not> (kb_key (the (key_heap s n)) = key \<and>
                                kb_handler (the (key_heap s n)) = kfunc))
                 (list_nodes (key_bindlist ktype s)))
              (s\<lparr>key_heap :=
                   (\<lambda>a. if a \<in> set (list_nodes (key_bindlist ktype s)) \<and>
                            kb_key (the (key_heap s a)) = key \<and>
                            kb_handler (the (key_heap s a)) = kfunc
                         then None else key_heap s a)\<rparr>))"
    by (rule key_removal_exact [OF assms])
next
  fix b assume "bind \<noteq> NULL \<and> mouse_heap s bind = Some b"
  then show "input_remove_mouse_bind bind s =
          input_remove_mouse_bind_from_list (mb_button b) (mb_handler b) (mb_type b) s"
    by (simp add: input_remove_mouse_bind_def)
qed (simp_all only: input_remove_mouse_move_bind_def input_remove_mousebtn_up_bind_def
      input_remove_mousebtn_down_bind_def)

theorem bulk_removal_selectors_witness:
  "wf_state demo_state \<and> input_initialized demo_state \<and>
   map_sum id mouse_up_binds (input_remove_mousebtn_up_bind 1 1 demo_state) = Inr (Some [7]) \<and>
   map_sum id (\<lambda>s. (mouse_heap s 7 \<noteq> None, mouse_heap s 8 \<noteq> None))
     (input_remove_mousebtn_up_bind 1 1 demo_state) = Inr (True, False) \<and>
   map_sum id key_up_binds (input_remove_key_bind_from_list 65 1 BIND_KEYUP demo_state) = Inr (Some [2])"
  using bulk_removal_selectors [OF wf_demo_state init_demo_state, of 1 1 BIND_BTNUP 0 65 1 BIND_KEYUP]
    wf_demo_state
  by (simp add: demo_state_def mouse_bindlist_def key_bindlist_def list_nodes_def
      mouse_bindlist_update_def key_bindlist_update_def demo_mouse_heap_def demo_key_heap_def)

subsection \<open>How many records a removal removes\<close>

text \<open>
  Claim C2 says that every removal call removes and frees at most one record. The bulk
  keyboard removal is a loop without an exit: in the example two key-down binds share
  key 65 and handler 1, and both \<open>input_remove_key_down_bind 65 1\<close> and
  \<open>input_remove_key_bind\<close> on the handle of the first remove the two of them.
\<close>

theorem removal_unique_record_counterexample:
  "key_down_binds demo_state = Some [4, 5, 6] \<and>
   map_sum id key_down_binds (input_remove_key_down_bind 65 1 demo_state) = Inr (Some [6]) \<and>
   map_sum id (\<lambda>s. (key_heap s 4, key_heap s 5)) (input_remove_key_down_bind 65 1 demo_state)
     = Inr (None, None) \<and>
   map_sum id key_down_binds (input_remove_key_bind 4 demo_state) = Inr (Some [6])"
  by (simp add: input_remove_key_down_bind_def input_remove_key_bind_def
      input_remove_key_bind_from_list_def key_bindlist_def key_bindlist_update_def
      demo_state_def demo_key_heap_def bindE_def NULL_def)

text \<open>
  Claim C2, amended. On a well-formed initialized store, \<open>input_remove_hook\<close> removes at
  most one record, the first of the list whose handler is the requested one. Keyboard
  removal by selector removes and frees every record of the selected list whose key and
  handler both equal the requested ones, and keeps the others in order.
  \<open>input_remove_key_bind\<close> on the handle of a bind that is in its list removes and frees
  that record together with every other record of the list that has the same key and
  handler.
\<close>

theorem removal_by_selector_or_handle:
  assumes wf: "wf_state s" and init: "input_initialized s"
  shows
    "(\<forall>hs. t < NUM_INPUT_EVENTS s \<and> input_hooks s ! t = Some hs \<longrightarrow>
        (\<exists>hs'. input_remove_hook t h s = Inr (s\<lparr>input_hooks := (input_hooks s)[t := Some hs']\<rparr>) \<and>
               map hook_handler hs' = remove1 h (map hook_handler hs))) \<and>
     (\<exists>s'. input_remove_key_bind_from_list key func type s = Inr s' \<and>
        list_nodes (key_bindlist type s') =
          filter (\<lambda>n. \<not> (kb_key (the (key_heap s n)) = key \<and> kb_handler (the (key_heap s n)) = func))
            (list_nodes (key_bindlist type s)) \<and>
        (\<forall>a. key_heap s' a =
           (if a \<in> set (list_nodes (key_bindlist type s)) \<and>
               kb_key (the (key_heap s a)) = key \<and> kb_handler (the (key_heap s a)) = func
            then None else key_heap s a))) \<and>
     (\<forall>b. bind \<in> set (list_nodes (key_bindlist (kb_type b) s)) \<and> key_heap s bind = Some b \<longrightarrow>
        (\<exists>s'. input_remove_key_bind bind s = Inr s' \<and>
           bind \<notin> set (list_nodes (key_bindlist (kb_type b) s')) \<and>
           key_heap s' bind = None \<and>
           list_nodes (key_bindlist (kb_type b) s') =
             filter (\<lambda>n. \<not> (kb_key (the (key_heap s n)) = kb_key b \<and>
                              kb_handler (the (key_heap s n)) = kb_handler b))
               (list_nodes (key_bindlist (kb_type b) s))))"
proof (intro conjI allI impI)
  fix hs assume "t < NUM_INPUT_EVENTS s \<and> input_hooks s ! t = Some hs"
  then show "\<exists>hs'. input_remove_hook t h s = Inr (s\<lparr>input_hooks := (input_hooks s)[t := Some hs']\<rparr>) \<and>
               map hook_handler hs' = remove1 h (map hook_handler hs)"
    using input_remove_hook_result [OF init, of t hs h] remove_hook_loop_remove1 [of h hs]
    by (intro exI [of _ "remove_hook_loop h hs"]) simp
next
  show "\<exists>s'. input_remove_key_bind_from_list key func type s = Inr s' \<and>
        list_nodes (key_bindlist type s') =
          filter (\<lambda>n. \<not> (kb_key (the (key_heap s n)) = key \<and> kb_handler (the (key_heap s n)) = func))
            (list_nodes (key_bindlist type s)) \<and>
        (\<forall>a. key_heap s' a =
           (if a \<in> set (list_nodes (key_bindlist type s)) \<and>
               kb_key (the (key_heap s a)) = key \<and> kb_handler (the (key_heap s a)) = func
            then None else key_heap s a))"
    unfolding key_removal_exact [OF wf init]
    by (simp add: key_bindlist_update_simps list_nodes_def)
next
  fix b assume a: "bind \<in> set (list_nodes (key_bindlist (kb_type b) s)) \<and> key_heap s bind = Some b"
  have nn: "bind \<noteq> NULL" using wf a by (auto simp: wf_state_def)
  have red: "input_remove_key_bind bind s =
      input_remove_key_bind_from_list (kb_key b) (kb_handler b) (kb_type b) s"
    using nn a by (simp add: input_remove_key_bind_def)
  show "\<exists>s'. input_remove_key_bind bind s = Inr s' \<and>
           bind \<notin> set (list_nodes (key_bindlist (kb_type b) s')) \<and>
           key_heap s' bind = None \<and>
           list_nodes (key_bindlist (kb_type b) s') =
             filter (\<lambda>n. \<not> (kb_key (the (key_heap s n)) = kb_key b \<and>
                              kb_handler (the (key_heap s n)) = kb_handler b))
               (list_nodes (key_bindlist (kb_type b) s))"
    unfolding red key_removal_exact [OF wf init]
    using a by (simp add: key_bindlist_update_simps list_nodes_def)
qed

theorem removal_by_selector_or_handle_witness:
  "wf_state demo_state \<and> input_initialized demo_state \<and>
   map_sum id (\<lambda>s. input_hooks s ! 0) (input_remove_hook 0 2 demo_state) =
     Inr (Some [\<lparr>hook_handler = 1\<rparr>, \<lparr>hook_handler = 3\<rparr>]) \<and>
   map_sum id key_up_binds (input_remove_key_bind_from_list 65 1 BIND_KEYUP demo_state) = Inr (Some [2]) \<and>
   map_sum id key_up_binds (input_remove_key_bind 2 demo_state) = Inr (Some [3])"
  using removal_by_selector_or_handle [OF wf_demo_state init_demo_state, of 0 2 65 1 BIND_KEYUP 2]
    wf_demo_state
  by (simp add: input_remove_hook_def input_remove_key_bind_def
      input_remove_key_bind_from_list_def key_bindlist_def key_bindlist_update_def
      NUM_INPUT_EVENTS_def demo_state_def demo_key_heap_def bindE_def NULL_def)

subsection \<open>Hooks veto\<close>

text \<open>
  Claim C3. In an initialized system with \<open>N\<close> hooks registered for a known event type
  (the list \<open>hs\<close>, in registration order), if hook \<open>k\<close> is the first to return false, then
  \<open>input_handle_keyboard_event\<close> (respectively \<open>input_handle_mouse_event\<close>) calls hooks
  \<open>0..k\<close> once each in that order, calls none of hooks \<open>k+1..N-1\<close>, and returns false. The
  log of the calls is exactly the calls of the first \<open>k+1\<close> hooks with the event.
\<close>

theorem hook_veto_short_circuit:
  assumes init: "input_initialized s" and known: "type < NUM_INPUT_EVENTS s"
    and hooks: "input_hooks s ! type = Some hs" and k: "k < length hs"
  shows
    "((\<forall>i<k. hook_returns app (KeyboardEvent type key) s hs w i) \<and>
      \<not> hook_returns app (KeyboardEvent type key) s hs w k \<longrightarrow>
        (\<exists>log. input_handle_keyboard_event (logged app) type key s (w, []) =
                  Inr (False, (hook_world app (KeyboardEvent type key) s (take (Suc k) hs) w, log)) \<and>
               map te_call log =
                 map (\<lambda>h. HookCall (hook_handler h) (KeyboardEvent type key)) (take (Suc k) hs))) \<and>
     (let ev = MouseEvent type x y (x - mouse_x s) (y - mouse_y s) (ucast button) (ucast wheel);
          s' = s\<lparr>mouse_x := x, mouse_y := y\<rparr>
      in (\<forall>i<k. hook_returns app ev s' hs w i) \<and> \<not> hook_returns app ev s' hs w k \<longrightarrow>
        (\<exists>log. input_handle_mouse_event (logged app) type x y button wheel s (w, []) =
                  Inr (False, s', (hook_world app ev s' (take (Suc k) hs) w, log)) \<and>
               map te_call log = map (\<lambda>h. HookCall (hook_handler h) ev) (take (Suc k) hs)))"
proof -
  have ne: "hs \<noteq> []" using k by auto
  have kb: "\<exists>log. input_handle_keyboard_event (logged app) type key s (w, []) =
                  Inr (False, (hook_world app (KeyboardEvent type key) s (take (Suc k) hs) w, log)) \<and>
               map te_call log =
                 map (\<lambda>h. HookCall (hook_handler h) (KeyboardEvent type key)) (take (Suc k) hs)"
    if a: "\<forall>i<k. hook_returns app (KeyboardEvent type key) s hs w i"
      and b: "\<not> hook_returns app (KeyboardEvent type key) s hs w k"
  proof -
    from run_hooks_logged_veto [OF k a b, of "[]"]
    obtain log where
      run: "run_hooks (logged app) (KeyboardEvent type key) s hs (w, []) =
              (False, (hook_world app (KeyboardEvent type key) s (take (Suc k) hs) w, [] @ log))"
      and calls: "map te_call log =
              map (\<lambda>h. HookCall (hook_handler h) (KeyboardEvent type key)) (take (Suc k) hs)"
      by auto
    show ?thesis
      using calls
      by (intro exI [of _ log])
        (simp add: input_handle_keyboard_event_hooks [OF init known hooks ne] run)
  qed
  have ms: "\<exists>log. input_handle_mouse_event (logged app) type x y button wheel s (w, []) =
                  Inr (False, s', (hook_world app ev s' (take (Suc k) hs) w, log)) \<and>
               map te_call log = map (\<lambda>h. HookCall (hook_handler h) ev) (take (Suc k) hs)"
    if ev: "ev = MouseEvent type x y (x - mouse_x s) (y - mouse_y s) (ucast button) (ucast wheel)"
      and s': "s' = s\<lparr>mouse_x := x, mouse_y := y\<rparr>"
      and a: "\<forall>i<k. hook_returns app ev s' hs w i"
      and b: "\<not> hook_returns app ev s' hs w k"
    for ev s'
  proof -
    from run_hooks_logged_veto [OF k a b, of "[]"]
    obtain log where
      run: "run_hooks (logged app) ev s' hs (w, []) =
              (False, (hook_world app ev s' (take (Suc k) hs) w, [] @ log))"
      and calls: "map te_call log = map (\<lambda>h. HookCall (hook_handler h) ev) (take (Suc k) hs)"
      by auto
    show ?thesis
      using calls run [unfolded ev s']
      by (intro exI [of _ log])
        (simp add: input_handle_mouse_event_hooks [OF init known hooks ne] ev s')
  qed
  show ?thesis
    using kb ms by (simp add: Let_def)
qed

theorem hook_veto_short_circuit_witness:
  "input_initialized demo_state \<and> 0 < NUM_INPUT_EVENTS demo_state \<and>
   input_hooks demo_state ! 0 = Some [\<lparr>hook_handler = 1\<rparr>, \<lparr>hook_handler = 2\<rparr>, \<lparr>hook_handler = 3\<rparr>] \<and>
   map_sum id (\<lambda>(r, w, log). (r, w, map te_call log))
     (input_handle_keyboard_event (logged demo_app) 0 65 demo_state (0, [])) =
     Inr (False, 2, [HookCall 1 (KeyboardEvent 0 65), HookCall 2 (KeyboardEvent 0 65)]) \<and>
   map_sum id (\<lambda>(r, s', w, log). (r, mouse_x s', mouse_y s', w, map te_call log))
     (input_handle_mouse_event (logged demo_app) 0 7 9 1 0 demo_state (0, [])) =
     Inr (False, 7, 9, 2, [HookCall 1 (MouseEvent 0 7 9 4 5 1 0), HookCall 2 (MouseEvent 0 7 9 4 5 1 0)])"
proof -
  have h1: "input_initialized demo_state" by (simp add: demo_state_def)
  have h2: "0 < NUM_INPUT_EVENTS demo_state" by (simp add: demo_state_def NUM_INPUT_EVENTS_def)
  have h3: "input_hooks demo_state ! 0 =
      Some [\<lparr>hook_handler = 1\<rparr>, \<lparr>hook_handler = 2\<rparr>, \<lparr>hook_handler = 3\<rparr>]"
    by (simp add: demo_state_def)
  have h4: "Suc 0 < length [\<lparr>hook_handler = 1\<rparr>, \<lparr>hook_handler = 2\<rparr>, \<lparr>hook_handler = (3::nat)\<rparr>]"
    by simp
  have m: "mouse_x demo_state = 3" "mouse_y demo_state = 4" by (simp_all add: demo_state_def)
  show ?thesis
    using hook_veto_short_circuit [OF h1 h2 h3 h4,
        where app = demo_app and key = 65 and w = 0 and x = 7 and y = 9 and button = 1 and wheel = 0]
      h1 h2 h3
    by (auto simp add: hook_returns_def hook_world_def demo_app_def m Let_def)
qed

subsection \<open>Binds do not veto each other\<close>

text \<open>
  Claim C4. None of the six bind entry points short-circuits. On a well-formed
  initialized state each returns normally and has called the handler of every matching
  bind of its list, in list order, whatever the earlier handlers returned. Its result
  is false if and only if one of the handlers it called returned false; with no
  matching bind the log is empty and the result is true.
\<close>

theorem bind_dispatch_no_short_circuit:
  assumes wf: "wf_state s" and init: "input_initialized s"
  shows
    "(\<exists>r w' log. input_handle_char_bind (logged app) key s (w, []) = Inr (r, (w', log)) \<and>
        map te_call log =
          map (\<lambda>n. KeyBindCall (kb_handler (the (key_heap s n))) key (kb_userdata (the (key_heap s n))))
            (list_nodes (char_binds s)) \<and>
        ((\<not> r) = (\<exists>e \<in> set log. \<not> te_result e))) \<and>
     (\<exists>r w' log. input_handle_key_down_bind (logged app) key s (w, []) = Inr (r, (w', log)) \<and>
        map te_call log =
          map (\<lambda>n. KeyBindCall (kb_handler (the (key_heap s n))) key (kb_userdata (the (key_heap s n))))
            (filter (\<lambda>n. kb_key (the (key_heap s n)) = key)
               (list_nodes (key_down_binds s))) \<and>
        ((\<not> r) = (\<exists>e \<in> set log. \<not> te_result e))) \<and>
     (\<exists>r w' log. input_handle_key_up_bind (logged app) key s (w, []) = Inr (r, (w', log)) \<and>
        map te_call log =
          map (\<lambda>n. KeyBindCall (kb_handler (the (key_heap s n))) key (kb_userdata (the (key_heap s n))))
            (filter (\<lambda>n. kb_key (the (key_heap s n)) = key)
               (list_nodes (key_up_binds s))) \<and>
        ((\<not> r) = (\<exists>e \<in> set log. \<not> te_result e))) \<and>
     (\<exists>r w' log. input_handle_mouse_move_bind (logged app) x y s (w, []) = Inr (r, (w', log)) \<and>
        map te_call log =
          map (\<lambda>n. MouseBindCall (mb_handler (the (mouse_heap s n))) MOUSE_NONE x y
                       (mb_userdata (the (mouse_heap s n))))
            (filter (\<lambda>n. rect_is_point_in (mb_bounds (the (mouse_heap s n))) x y)
               (list_nodes (mouse_move_binds s))) \<and>
        ((\<not> r) = (\<exists>e \<in> set log. \<not> te_result e))) \<and>
     (\<exists>r w' log. input_handle_mouse_up_bind (logged app) button x y s (w, []) = Inr (r, (w', log)) \<and>
        map te_call log =
          map (\<lambda>n. MouseBindCall (mb_handler (the (mouse_heap s n))) button x y
                       (mb_userdata (the (mouse_heap s n))))
            (filter (\<lambda>n. mb_button (the (mouse_heap s n)) = button \<and>
                        rect_is_point_in (mb_bounds (the (mouse_heap s n))) x y)
               (list_nodes (mouse_up_binds s))) \<and>
        ((\<not> r) = (\<exists>e \<in> set log. \<not> te_result e))) \<and>
     (\<exists>r w' log. input_handle_mouse_down_bind (logged app) button x y s (w, []) = Inr (r, (w', log)) \<and>
        map te_call log =
          map (\<lambda>n. MouseBindCall (mb_handler (the (mouse_heap s n))) button x y
                       (mb_userdata (the (mouse_heap s n))))
            (filter (\<lambda>n. mb_button (the (mouse_heap s n)) = button \<and>
                        rect_is_point_in (mb_bounds (the (mouse_heap s n))) x y)
               (list_nodes (mouse_down_binds s))) \<and>
        ((\<not> r) = (\<exists>e \<in> set log. \<not> te_result e)))"
proof -
  have c1: "\<exists>r w' log. input_handle_char_bind (logged app) key s (w, []) = Inr (r, (w', log)) \<and>
        map te_call log =
          map (\<lambda>n. KeyBindCall (kb_handler (the (key_heap s n))) key (kb_userdata (the (key_heap s n))))
            (list_nodes (char_binds s)) \<and>
        ((\<not> r) = (\<exists>e \<in> set log. \<not> te_result e))"
  proof -
    from input_handle_char_bind_logged [OF wf init, of app key w]
    obtain r w' log where
      run: "input_handle_char_bind (logged app) key s (w, []) = Inr (r, (w', log))"
      and res: "r \<longleftrightarrow> (\<forall>e \<in> set log. te_result e)"
      and calls: "map te_call log =
          map (\<lambda>n. KeyBindCall (kb_handler (the (key_heap s n))) key (kb_userdata (the (key_heap s n))))
            (list_nodes (char_binds s))"
      by blast
    show ?thesis
      using run res calls by (intro exI [of _ r] exI [of _ w'] exI [of _ log]) simp
  qed
  have c2: "\<exists>r w' log. input_handle_key_down_bind (logged app) key s (w, []) = Inr (r, (w', log)) \<and>
        map te_call log =
          map (\<lambda>n. KeyBindCall (kb_handler (the (key_heap s n))) key (kb_userdata (the (key_heap s n))))
            (filter (\<lambda>n. kb_key (the (key_heap s n)) = key)
               (list_nodes (key_down_binds s))) \<and>
        ((\<not> r) = (\<exists>e \<in> set log. \<not> te_result e))"
  proof -
    from input_handle_key_down_bind_logged [OF wf init, of app key w]
    obtain r w' log where
      run: "input_handle_key_down_bind (logged app) key s (w, []) = Inr (r, (w', log))"
      and res: "r \<longleftrightarrow> (\<forall>e \<in> set log. te_result e)"
      and calls: "map te_call log =
          map (\<lambda>n. KeyBindCall (kb_handler (the (key_heap s n))) key (kb_userdata (the (key_heap s n))))
            (filter (\<lambda>n. kb_key (the (key_heap s n)) = key)
               (list_nodes (key_down_binds s)))"
      by blast
    show ?thesis
      using run res calls by (intro exI [of _ r] exI [of _ w'] exI [of _ log]) simp
  qed
  have c3: "\<exists>r w' log. input_handle_key_up_bind (logged app) key s (w, []) = Inr (r, (w', log)) \<and>
        map te_call log =
          map (\<lambda>n. KeyBindCall (kb_handler (the (key_heap s n))) key (kb_userdata (the (key_heap s n))))
            (filter (\<lambda>n. kb_key (the (key_heap s n)) = key)
               (list_nodes (key_up_binds s))) \<and>
        ((\<not> r) = (\<exists>e \<in> set log. \<not> te_result e))"
  proof -
    from input_handle_key_up_bind_logged [OF wf init, of app key w]
    obtain r w' log where
      run: "input_handle_key_up_bind (logged app) key s (w, []) = Inr (r, (w', log))"
      and res: "r \<longleftrightarrow> (\<forall>e \<in> set log. te_result e)"
      and calls: "map te_call log =
          map (\<lambda>n. KeyBindCall (kb_handler (the (key_heap s n))) key (kb_userdata (the (key_heap s n))))
            (filter (\<lambda>n. kb_key (the (key_heap s n)) = key)
               (list_nodes (key_up_binds s)))"
      by blast
    show ?thesis
      using run res calls by (intro exI [of _ r] exI [of _ w'] exI [of _ log]) simp
  qed
  have c4: "\<exists>r w' log. input_handle_mouse_move_bind (logged app) x y s (w, []) = Inr (r, (w', log)) \<and>
        map te_call log =
          map (\<lambda>n. MouseBindCall (mb_handler (the (mouse_heap s n))) MOUSE_NONE x y
                       (mb_userdata (the (mouse_heap s n))))
            (filter (\<lambda>n. rect_is_point_in (mb_bounds (the (mouse_heap s n))) x y)
               (list_nodes (mouse_move_binds s))) \<and>
        ((\<not> r) = (\<exists>e \<in> set log. \<not> te_result e))"
  proof -
    from input_handle_mouse_move_bind_logged [OF wf init, of app x y w]
    obtain r w' log where
      run: "input_handle_mouse_move_bind (logged app) x y s (w, []) = Inr (r, (w', log))"
      and res: "r \<longleftrightarrow> (\<forall>e \<in> set log. te_result e)"
      and calls: "map te_call log =
          map (\<lambda>n. MouseBindCall (mb_handler (the (mouse_heap s n))) MOUSE_NONE x y
                       (mb_userdata (the (mouse_heap s n))))
            (filter (\<lambda>n. rect_is_point_in (mb_bounds (the (mouse_heap s n))) x y)
               (list_nodes (mouse_move_binds s)))"
      by blast
    show ?thesis
      using run res calls by (intro exI [of _ r] exI [of _ w'] exI [of _ log]) simp
  qed
  have c5: "\<exists>r w' log. input_handle_mouse_up_bind (logged app) button x y s (w, []) = Inr (r, (w', log)) \<and>
        map te_call log =
          map (\<lambda>n. MouseBindCall (mb_handler (the (mouse_heap s n))) button x y
                       (mb_userdata (the (mouse_heap s n))))
            (filter (\<lambda>n. mb_button (the (mouse_heap s n)) = button \<and>
                        rect_is_point_in (mb_bounds (the (mouse_heap s n))) x y)
               (list_nodes (mouse_up_binds s))) \<and>
        ((\<not> r) = (\<exists>e \<in> set log. \<not> te_result e))"
  proof -
    from input_handle_mouse_up_bind_logged [OF wf init, of app button x y w]
    obtain r w' log where
      run: "input_handle_mouse_up_bind (logged app) button x y s (w, []) = Inr (r, (w', log))"
      and res: "r \<longleftrightarrow> (\<forall>e \<in> set log. te_result e)"
      and calls: "map te_call log =
          map (\<lambda>n. MouseBindCall (mb_handler (the (mouse_heap s n))) button x y
                       (mb_userdata (the (mouse_heap s n))))
            (filter (\<lambda>n. mb_button (the (mouse_heap s n)) = button \<and>
                        rect_is_point_in (mb_bounds (the (mouse_heap s n))) x y)
               (list_nodes (mouse_up_binds s)))"
      by blast
    show ?thesis
      using run res calls by (intro exI [of _ r] exI [of _ w'] exI [of _ log]) simp
  qed
  have c6: "\<exists>r w' log. input_handle_mouse_down_bind (logged app) button x y s (w, []) = Inr (r, (w', log)) \<and>
        map te_call log =
          map (\<lambda>n. MouseBindCall (mb_handler (the (mouse_heap s n))) button x y
                       (mb_userdata (the (mouse_heap s n))))
            (filter (\<lambda>n. mb_button (the (mouse_heap s n)) = button \<and>
                        rect_is_point_in (mb_bounds (the (mouse_heap s n))) x y)
               (list_nodes (mouse_down_binds s))) \<and>
        ((\<not> r) = (\<exists>e \<in> set log. \<not> te_result e))"
  proof -
    from input_handle_mouse_down_bind_logged [OF wf init, of app button x y w]
    obtain r w' log where
      run: "input_handle_mouse_down_bind (logged app) button x y s (w, []) = Inr (r, (w', log))"
      and res: "r \<longleftrightarrow> (\<forall>e \<in> set log. te_result e)"
      and calls: "map te_call log =
          map (\<lambda>n. MouseBindCall (mb_handler (the (mouse_heap s n))) button x y
                       (mb_userdata (the (mouse_heap s n))))
            (filter (\<lambda>n. mb_button (the (mouse_heap s n)) = button \<and>
                        rect_is_point_in (mb_bounds (the (mouse_heap s n))) x y)
               (list_nodes (mouse_down_binds s)))"
      by blast
    show ?thesis
      using run res calls by (intro exI [of _ r] exI [of _ w'] exI [of _ log]) simp
  qed
  show ?thesis
    by (intro conjI c1 c2 c3 c4 c5 c6)
qed

theorem bind_dispatch_no_short_circuit_witness:
  "wf_state demo_state \<and> input_initialized demo_state \<and>
   map_sum id (\<lambda>(r, w, log). (r, w, map te_call log, map te_result log))
     (input_handle_key_up_bind (logged demo_app) 65 demo_state (0, [])) =
     Inr (False, 2, [KeyBindCall 2 65 51, KeyBindCall 1 65 52], [False, True]) \<and>
   map_sum id fst (input_handle_mouse_down_bind (logged demo_app) 2 5 5 demo_state (0, [])) = Inr True"
  using bind_dispatch_no_short_circuit [OF wf_demo_state init_demo_state,
      where app = demo_app and key = 65 and w = 0 and button = 2 and x = 5 and y = 5]
    wf_demo_state
  by (simp add: input_handle_key_up_bind_def input_handle_mouse_down_bind_def demo_state_def
      demo_key_heap_def demo_mouse_heap_def demo_rect_def rect_is_point_in_def logged_def
      demo_app_def)

subsection \<open>The keyboard-block flag\<close>

text \<open>
  Claim C5. With the keyboard-block flag set, \<open>input_handle_keyboard_event\<close> returns false
  whenever the known event type has at least one hook, whatever the hooks return. When
  every hook returns true, all hooks are called and the result is false with the flag
  set and true with the flag clear.
\<close>

theorem keyboard_block_flag:
  assumes init: "input_initialized s" and known: "type < NUM_INPUT_EVENTS s"
    and hooks: "input_hooks s ! type = Some hs"
  shows
    "(block_keys s \<and> hs \<noteq> [] \<longrightarrow>
        (\<exists>w'. input_handle_keyboard_event app type key s w = Inr (False, w'))) \<and>
     ((\<forall>i<length hs. hook_returns app (KeyboardEvent type key) s hs w i) \<longrightarrow>
        (\<exists>log. input_handle_keyboard_event (logged app) type key s (w, []) =
                  Inr (hs = [] \<or> \<not> block_keys s,
                       (hook_world app (KeyboardEvent type key) s hs w, log)) \<and>
               map te_call log = map (\<lambda>h. HookCall (hook_handler h) (KeyboardEvent type key)) hs))"
proof (intro conjI impI)
  assume "block_keys s \<and> hs \<noteq> []"
  then show "\<exists>w'. input_handle_keyboard_event app type key s w = Inr (False, w')"
    by (cases "run_hooks app (KeyboardEvent type key) s hs w")
      (simp add: input_handle_keyboard_event_hooks [OF init known hooks])
next
  assume a: "\<forall>i<length hs. hook_returns app (KeyboardEvent type key) s hs w i"
  from run_hooks_logged_all [OF a, of "[]"]
  obtain log where
    run: "run_hooks (logged app) (KeyboardEvent type key) s hs (w, []) =
            (True, (hook_world app (KeyboardEvent type key) s hs w, [] @ log))"
    and calls: "map te_call log = map (\<lambda>h. HookCall (hook_handler h) (KeyboardEvent type key)) hs"
    by auto
  show "\<exists>log. input_handle_keyboard_event (logged app) type key s (w, []) =
                  Inr (hs = [] \<or> \<not> block_keys s,
                       (hook_world app (KeyboardEvent type key) s hs w, log)) \<and>
               map te_call log = map (\<lambda>h. HookCall (hook_handler h) (KeyboardEvent type key)) hs"
  proof (cases "hs = []")
    case True
    then show ?thesis
      using init known hooks by (simp add: input_handle_keyboard_event_def)
  next
    case False
    show ?thesis
      using calls False
      by (intro exI [of _ log])
        (simp add: input_handle_keyboard_event_hooks [OF init known hooks False] run)
  qed
qed

theorem keyboard_block_flag_witness:
  "input_initialized (input_block_keys True demo_state) \<and>
   map_sum id fst (input_handle_keyboard_event demo_app 0 65 (input_block_keys True demo_state) 0) =
     Inr False \<and>
   map_sum id (\<lambda>(r, w, log). (r, w, map te_call log))
     (input_handle_keyboard_event (logged demo_app) 2 65 (input_block_keys True demo_state) (0, [])) =
     Inr (False, 2, [HookCall 1 (KeyboardEvent 2 65), HookCall 3 (KeyboardEvent 2 65)]) \<and>
   map_sum id (\<lambda>(r, w, log). (r, w, map te_call log))
     (input_handle_keyboard_event (logged demo_app) 2 65 demo_state (0, [])) =
     Inr (True, 2, [HookCall 1 (KeyboardEvent 2 65), HookCall 3 (KeyboardEvent 2 65)])"
proof -
  let ?b = "input_block_keys True demo_state"
  have b1: "input_initialized ?b" by (simp add: input_block_keys_simps demo_state_hooks)
  have b2: "0 < NUM_INPUT_EVENTS ?b" "2 < NUM_INPUT_EVENTS ?b"
    by (simp_all add: input_block_keys_simps demo_state_hooks)
  have b3: "input_hooks ?b ! 0 = Some [\<lparr>hook_handler = 1\<rparr>, \<lparr>hook_handler = 2\<rparr>, \<lparr>hook_handler = 3\<rparr>]"
    "input_hooks ?b ! 2 = Some [\<lparr>hook_handler = 1\<rparr>, \<lparr>hook_handler = 3\<rparr>]"
    by (simp_all add: input_block_keys_simps demo_state_hooks)
  have d2: "2 < NUM_INPUT_EVENTS demo_state" by (simp add: demo_state_hooks)
  show ?thesis
    using keyboard_block_flag [OF b1 b2(1) b3(1), where app = demo_app and key = 65 and w = 0]
      keyboard_block_flag [OF b1 b2(2) b3(2), where app = demo_app and key = 65 and w = 0]
      keyboard_block_flag [OF demo_state_hooks(1) d2 demo_state_hooks(4),
        where app = demo_app and key = 65 and w = 0]
      b1
    by (auto simp add: hook_returns_def hook_world_def demo_app_def input_block_keys_simps
        demo_state_hooks less_Suc_eq numeral_2_eq_2)
qed

subsection \<open>The cursor position\<close>

text \<open>
  Claim C6. Whenever \<open>input_handle_mouse_event\<close> calls hooks (initialized, known type,
  at least one hook), it has stored \<open>(x, y)\<close> as the cursor position before the first
  call: every call sees the cursor at \<open>(x, y)\<close>. The event passed to every hook carries
  \<open>dx = x - mouse_x\<close> and \<open>dy = y - mouse_y\<close> computed from the position stored before that
  update (in 16-bit arithmetic).
\<close>

theorem mouse_cursor_update_before_hooks:
  assumes init: "input_initialized s" and known: "type < NUM_INPUT_EVENTS s"
    and hooks: "input_hooks s ! type = Some hs" and ne: "hs \<noteq> []"
  shows
    "\<exists>r w' log. input_handle_mouse_event (logged app) type x y button wheel s (w, []) =
         Inr (r, s\<lparr>mouse_x := x, mouse_y := y\<rparr>, (w', log)) \<and>
       log \<noteq> [] \<and>
       (\<forall>e \<in> set log.
          te_cursor e = (x, y) \<and>
          (\<exists>h. te_call e =
             HookCall h (MouseEvent type x y (x - mouse_x s) (y - mouse_y s) (ucast button) (ucast wheel))))"
proof -
  let ?ev = "MouseEvent type x y (x - mouse_x s) (y - mouse_y s) (ucast button) (ucast wheel)"
  let ?s' = "s\<lparr>mouse_x := x, mouse_y := y\<rparr>"
  from run_hooks_logged_prefix [of app ?ev ?s' hs w "[]"]
  obtain r w' log n where
    run: "run_hooks (logged app) ?ev ?s' hs (w, []) = (r, (w', [] @ log))"
    and n: "hs \<noteq> [] \<longrightarrow> 0 < n"
    and calls: "map te_call log = map (\<lambda>h. HookCall (hook_handler h) ?ev) (take n hs)"
    and cur: "\<forall>e \<in> set log. te_cursor e = (mouse_x ?s', mouse_y ?s')"
    by blast
  have len: "length log = length (take n hs)"
    using calls by (metis length_map)
  then have nonempty: "log \<noteq> []" using n ne by (cases hs; cases n) auto
  have each: "\<exists>h. te_call e = HookCall h ?ev" if "e \<in> set log" for e
  proof -
    from that have "te_call e \<in> set (map te_call log)" by simp
    then show ?thesis unfolding calls by auto
  qed
  show ?thesis
    using nonempty cur each
    by (intro exI [of _ r] exI [of _ w'] exI [of _ log])
      (simp add: input_handle_mouse_event_hooks [OF init known hooks ne] run)
qed

theorem mouse_cursor_update_before_hooks_witness:
  "input_initialized demo_state \<and> 2 < NUM_INPUT_EVENTS demo_state \<and>
   map_sum id (\<lambda>(r, s', w, log). (r, mouse_x s', mouse_y s', map te_cursor log, map te_call log))
     (input_handle_mouse_event (logged demo_app) 2 7 9 1 0 demo_state (0, [])) =
     Inr (True, 7, 9, [(7, 9), (7, 9)],
          [HookCall 1 (MouseEvent 2 7 9 4 5 1 0), HookCall 3 (MouseEvent 2 7 9 4 5 1 0)])"
proof -
  have d2: "2 < NUM_INPUT_EVENTS demo_state" by (simp add: demo_state_hooks)
  have ne: "[\<lparr>hook_handler = 1\<rparr>, \<lparr>hook_handler = (3::nat)\<rparr>] \<noteq> []" by simp
  show ?thesis
    using mouse_cursor_update_before_hooks [OF demo_state_hooks(1) d2 demo_state_hooks(4) ne,
        where app = demo_app and x = 7 and y = 9 and button = 1 and wheel = 0 and w = 0]
      d2
    by (simp add: input_handle_mouse_event_def Let_def demo_state_hooks logged_def demo_app_def)
qed

subsection \<open>Which binds a dispatch invokes\<close>

text \<open>
  Claim C7. The calls an entry point makes are exactly the calls of the binds whose
  selector matches, in list order: every char bind, with no key filter; the key-down and
  key-up binds whose stored key is the input key; the move binds whose rectangle
  contains \<open>(x, y)\<close>, whatever their button; the button binds whose stored button is the
  dispatched button and whose rectangle contains \<open>(x, y)\<close>. Containment includes the
  edges. Every call passes the user data stored in the bind, and that is the user data
  passed at registration: after registration and any sequence of calls of the public
  functions, a key bind that is still registered holds exactly the record that was
  registered, and a mouse bind holds the user data it was registered with unless the
  sequence replaced it through \<open>input_set_mousebind_param\<close> on its handle, in which case
  it holds the last value so stored. The state after the sequence is well-formed, so the
  first six statements apply to it.
\<close>

theorem bind_selectors_and_userdata:
  assumes wf: "wf_state s" and init: "input_initialized s"
  shows
    "(\<exists>r w' log. input_handle_char_bind (logged app) key s (w, []) = Inr (r, (w', log)) \<and>
        map te_call log =
          map (\<lambda>n. KeyBindCall (kb_handler (the (key_heap s n))) key (kb_userdata (the (key_heap s n))))
            (list_nodes (char_binds s))) \<and>
     (\<exists>r w' log. input_handle_key_down_bind (logged app) key s (w, []) = Inr (r, (w', log)) \<and>
        map te_call log =
          map (\<lambda>n. KeyBindCall (kb_handler (the (key_heap s n))) key (kb_userdata (the (key_heap s n))))
            (filter (\<lambda>n. kb_key (the (key_heap s n)) = key)
             (list_nodes (key_down_binds s)))) \<and>
     (\<exists>r w' log. input_handle_key_up_bind (logged app) key s (w, []) = Inr (r, (w', log)) \<and>
        map te_call log =
          map (\<lambda>n. KeyBindCall (kb_handler (the (key_heap s n))) key (kb_userdata (the (key_heap s n))))
            (filter (\<lambda>n. kb_key (the (key_heap s n)) = key)
             (list_nodes (key_up_binds s)))) \<and>
     (\<exists>r w' log. input_handle_mouse_move_bind (logged app) x y s (w, []) = Inr (r, (w', log)) \<and>
        map te_call log =
          map (\<lambda>n. MouseBindCall (mb_handler (the (mouse_heap s n))) MOUSE_NONE x y (mb_userdata (the (mouse_heap s n))))
            (filter (\<lambda>n. sint (r_left (mb_bounds (the (mouse_heap s n)))) \<le> sint x \<and>
                      sint x \<le> sint (r_right (mb_bounds (the (mouse_heap s n)))) \<and>
                      sint (r_top (mb_bounds (the (mouse_heap s n)))) \<le> sint y \<and>
                      sint y \<le> sint (r_bottom (mb_bounds (the (mouse_heap s n)))))
             (list_nodes (mouse_move_binds s)))) \<and>
     (\<exists>r w' log. input_handle_mouse_up_bind (logged app) button x y s (w, []) = Inr (r, (w', log)) \<and>
        map te_call log =
          map (\<lambda>n. MouseBindCall (mb_handler (the (mouse_heap s n))) button x y (mb_userdata (the (mouse_heap s n))))
            (filter (\<lambda>n. mb_button (the (mouse_heap s n)) = button \<and>
                      sint (r_left (mb_bounds (the (mouse_heap s n)))) \<le> sint x \<and>
                      sint x \<le> sint (r_right (mb_bounds (the (mouse_heap s n)))) \<and>
                      sint (r_top (mb_bounds (the (mouse_heap s n)))) \<le> sint y \<and>
                      sint y \<le> sint (r_bottom (mb_bounds (the (mouse_heap s n)))))
             (list_nodes (mouse_up_binds s)))) \<and>
     (\<exists>r w' log. input_handle_mouse_down_bind (logged app) button x y s (w, []) = Inr (r, (w', log)) \<and>
        map te_call log =
          map (\<lambda>n. MouseBindCall (mb_handler (the (mouse_heap s n))) button x y (mb_userdata (the (mouse_heap s n))))
            (filter (\<lambda>n. mb_button (the (mouse_heap s n)) = button \<and>
                      sint (r_left (mb_bounds (the (mouse_heap s n)))) \<le> sint x \<and>
                      sint x \<le> sint (r_right (mb_bounds (the (mouse_heap s n)))) \<and>
                      sint (r_top (mb_bounds (the (mouse_heap s n)))) \<le> sint y \<and>
                      sint y \<le> sint (r_bottom (mb_bounds (the (mouse_heap s n)))))
             (list_nodes (mouse_down_binds s)))) \<and>
     (\<exists>bind s1. input_add_key_bind rkey rfunc rdata ktype s = (bind, s1) \<and>
        list_nodes (key_bindlist ktype s1) = list_nodes (key_bindlist ktype s) @ [bind] \<and>
        (\<forall>s2. run_script cs s1 = Inr s2 \<longrightarrow>
           wf_state s2 \<and>
           (\<forall>b. key_heap s2 bind = Some b \<longrightarrow>
              b = \<lparr>kb_type = ktype, kb_key = rkey, kb_handler = rfunc, kb_userdata = rdata\<rparr>) \<and>
           (bind \<in> set (list_nodes (key_bindlist ktype s2)) \<longrightarrow>
              key_heap s2 bind =
                Some \<lparr>kb_type = ktype, kb_key = rkey, kb_handler = rfunc, kb_userdata = rdata\<rparr>))) \<and>
     (\<exists>bind s1. input_add_mouse_bind rbutton area mfunc mdata mtype s = (bind, s1) \<and>
        list_nodes (mouse_bindlist mtype s1) = list_nodes (mouse_bindlist mtype s) @ [bind] \<and>
        (\<forall>s2. run_script cs s1 = Inr s2 \<longrightarrow>
           wf_state s2 \<and>
           (\<forall>b. mouse_heap s2 bind = Some b \<longrightarrow>
              mb_type b = mtype \<and> mb_userdata b = param_after bind mdata cs) \<and>
           (bind \<in> set (list_nodes (mouse_bindlist mtype s2)) \<longrightarrow>
              (\<exists>b. mouse_heap s2 bind = Some b \<and> mb_userdata b = param_after bind mdata cs))))"
proof -
  have c1: "\<exists>r w' log. input_handle_char_bind (logged app) key s (w, []) = Inr (r, (w', log)) \<and>
        map te_call log =
          map (\<lambda>n. KeyBindCall (kb_handler (the (key_heap s n))) key (kb_userdata (the (key_heap s n))))
            (list_nodes (char_binds s))"
    using input_handle_char_bind_logged [OF wf init, of app key w]
    unfolding rect_is_point_in_def by blast
  have c2: "\<exists>r w' log. input_handle_key_down_bind (logged app) key s (w, []) = Inr (r, (w', log)) \<and>
        map te_call log =
          map (\<lambda>n. KeyBindCall (kb_handler (the (key_heap s n))) key (kb_userdata (the (key_heap s n))))
            (filter (\<lambda>n. kb_key (the (key_heap s n)) = key)
             (list_nodes (key_down_binds s)))"
    using input_handle_key_down_bind_logged [OF wf init, of app key w]
    unfolding rect_is_point_in_def by blast
  have c3: "\<exists>r w' log. input_handle_key_up_bind (logged app) key s (w, []) = Inr (r, (w', log)) \<and>
        map te_call log =
          map (\<lambda>n. KeyBindCall (kb_handler (the (key_heap s n))) key (kb_userdata (the (key_heap s n))))
            (filter (\<lambda>n. kb_key (the (key_heap s n)) = key)
             (list_nodes (key_up_binds s)))"
    using input_handle_key_up_bind_logged [OF wf init, of app key w]
    unfolding rect_is_point_in_def by blast
  have c4: "\<exists>r w' log. input_handle_mouse_move_bind (logged app) x y s (w, []) = Inr (r, (w', log)) \<and>
        map te_call log =
          map (\<lambda>n. MouseBindCall (mb_handler (the (mouse_heap s n))) MOUSE_NONE x y (mb_userdata (the (mouse_heap s n))))
            (filter (\<lambda>n. sint (r_left (mb_bounds (the (mouse_heap s n)))) \<le> sint x \<and>
                      sint x \<le> sint (r_right (mb_bounds (the (mouse_heap s n)))) \<and>
                      sint (r_top (mb_bounds (the (mouse_heap s n)))) \<le> sint y \<and>
                      sint y \<le> sint (r_bottom (mb_bounds (the (mouse_heap s n)))))
             (list_nodes (mouse_move_binds s)))"
    using input_handle_mouse_move_bind_logged [OF wf init, of app x y w]
    unfolding rect_is_point_in_def by blast
  have c5: "\<exists>r w' log. input_handle_mouse_up_bind (logged app) button x y s (w, []) = Inr (r, (w', log)) \<and>
        map te_call log =
          map (\<lambda>n. MouseBindCall (mb_handler (the (mouse_heap s n))) button x y (mb_userdata (the (mouse_heap s n))))
            (filter (\<lambda>n. mb_button (the (mouse_heap s n)) = button \<and>
                      sint (r_left (mb_bounds (the (mouse_heap s n)))) \<le> sint x \<and>
                      sint x \<le> sint (r_right (mb_bounds (the (mouse_heap s n)))) \<and>
                      sint (r_top (mb_bounds (the (mouse_heap s n)))) \<le> sint y \<and>
                      sint y \<le> sint (r_bottom (mb_bounds (the (mouse_heap s n)))))
             (list_nodes (mouse_up_binds s)))"
    using input_handle_mouse_up_bind_logged [OF wf init, of app button x y w]
    unfolding rect_is_point_in_def by blast
  have c6: "\<exists>r w' log. input_handle_mouse_down_bind (logged app) button x y s (w, []) = Inr (r, (w', log)) \<and>
        map te_call log =
          map (\<lambda>n. MouseBindCall (mb_handler (the (mouse_heap s n))) button x y (mb_userdata (the (mouse_heap s n))))
            (filter (\<lambda>n. mb_button (the (mouse_heap s n)) = button \<and>
                      sint (r_left (mb_bounds (the (mouse_heap s n)))) \<le> sint x \<and>
                      sint x \<le> sint (r_right (mb_bounds (the (mouse_heap s n)))) \<and>
                      sint (r_top (mb_bounds (the (mouse_heap s n)))) \<le> sint y \<and>
                      sint y \<le> sint (r_bottom (mb_bounds (the (mouse_heap s n)))))
             (list_nodes (mouse_down_binds s)))"
    using input_handle_mouse_down_bind_logged [OF wf init, of app button x y w]
    unfolding rect_is_point_in_def by blast
  have c7: "\<exists>bind s1. input_add_key_bind rkey rfunc rdata ktype s = (bind, s1) \<and>
        list_nodes (key_bindlist ktype s1) = list_nodes (key_bindlist ktype s) @ [bind] \<and>
        (\<forall>s2. run_script cs s1 = Inr s2 \<longrightarrow>
           wf_state s2 \<and>
           (\<forall>b. key_heap s2 bind = Some b \<longrightarrow>
              b = \<lparr>kb_type = ktype, kb_key = rkey, kb_handler = rfunc, kb_userdata = rdata\<rparr>) \<and>
           (bind \<in> set (list_nodes (key_bindlist ktype s2)) \<longrightarrow>
              key_heap s2 bind =
                Some \<lparr>kb_type = ktype, kb_key = rkey, kb_handler = rfunc, kb_userdata = rdata\<rparr>))"
  proof -
    obtain bind s1 where add: "input_add_key_bind rkey rfunc rdata ktype s = (bind, s1)"
      by (cases "input_add_key_bind rkey rfunc rdata ktype s")
    note fr = input_add_key_bind_fresh [OF wf init add]
    have wf1: "wf_state s1" by (rule wf_input_add_key_bind [OF wf add])
    have rest: "wf_state s2 \<and>
           (\<forall>b. key_heap s2 bind = Some b \<longrightarrow>
              b = \<lparr>kb_type = ktype, kb_key = rkey, kb_handler = rfunc, kb_userdata = rdata\<rparr>) \<and>
           (bind \<in> set (list_nodes (key_bindlist ktype s2)) \<longrightarrow>
              key_heap s2 bind =
                Some \<lparr>kb_type = ktype, kb_key = rkey, kb_handler = rfunc, kb_userdata = rdata\<rparr>)"
      if run: "run_script cs s1 = Inr s2" for s2
    proof -
      have wf2: "wf_state s2" by (rule wf_run_script [OF wf1 run])
      have same: "b = \<lparr>kb_type = ktype, kb_key = rkey, kb_handler = rfunc, kb_userdata = rdata\<rparr>"
        if "key_heap s2 bind = Some b" for b
        using run_script_key_record [OF run fr(2) that] fr(3) by simp
      have inlist: "key_heap s2 bind =
                Some \<lparr>kb_type = ktype, kb_key = rkey, kb_handler = rfunc, kb_userdata = rdata\<rparr>"
        if "bind \<in> set (list_nodes (key_bindlist ktype s2))"
        using key_list_okD [OF wf_key_list [OF wf2] that] same by auto
      show ?thesis using wf2 same inlist by blast
    qed
    show ?thesis
      using add fr(4) rest by (intro exI [of _ bind] exI [of _ s1]) blast
  qed
  have c8: "\<exists>bind s1. input_add_mouse_bind rbutton area mfunc mdata mtype s = (bind, s1) \<and>
        list_nodes (mouse_bindlist mtype s1) = list_nodes (mouse_bindlist mtype s) @ [bind] \<and>
        (\<forall>s2. run_script cs s1 = Inr s2 \<longrightarrow>
           wf_state s2 \<and>
           (\<forall>b. mouse_heap s2 bind = Some b \<longrightarrow>
              mb_type b = mtype \<and> mb_userdata b = param_after bind mdata cs) \<and>
           (bind \<in> set (list_nodes (mouse_bindlist mtype s2)) \<longrightarrow>
              (\<exists>b. mouse_heap s2 bind = Some b \<and> mb_userdata b = param_after bind mdata cs)))"
  proof -
    obtain bind s1 where add: "input_add_mouse_bind rbutton area mfunc mdata mtype s = (bind, s1)"
      by (cases "input_add_mouse_bind rbutton area mfunc mdata mtype s")
    note fr = input_add_mouse_bind_fresh [OF wf init add]
    have wf1: "wf_state s1" by (rule wf_input_add_mouse_bind [OF wf add])
    have rest: "wf_state s2 \<and>
           (\<forall>b. mouse_heap s2 bind = Some b \<longrightarrow>
              mb_type b = mtype \<and> mb_userdata b = param_after bind mdata cs) \<and>
           (bind \<in> set (list_nodes (mouse_bindlist mtype s2)) \<longrightarrow>
              (\<exists>b. mouse_heap s2 bind = Some b \<and> mb_userdata b = param_after bind mdata cs))"
      if run: "run_script cs s1 = Inr s2" for s2
    proof -
      have wf2: "wf_state s2" by (rule wf_run_script [OF wf1 run])
      have same: "mb_type b = mtype \<and> mb_userdata b = param_after bind mdata cs"
        if "mouse_heap s2 bind = Some b" for b
        using run_script_mouse_record [OF run fr(2) fr(1) that] fr(3) by auto
      have inlist: "\<exists>b. mouse_heap s2 bind = Some b \<and> mb_userdata b = param_after bind mdata cs"
        if "bind \<in> set (list_nodes (mouse_bindlist mtype s2))"
        using mouse_list_okD [OF wf_mouse_list [OF wf2] that] same by auto
      show ?thesis using wf2 same inlist by blast
    qed
    show ?thesis
      using add fr(4) rest by (intro exI [of _ bind] exI [of _ s1]) blast
  qed
  show ?thesis
    by (intro conjI c1 c2 c3 c4 c5 c6 c7 c8)
qed

theorem bind_selectors_and_userdata_witness:
  "wf_state demo_state \<and> input_initialized demo_state \<and>
   map_sum id (\<lambda>(r, w, log). map te_call log)
     (input_handle_char_bind (logged demo_app) 10 demo_state (0, [])) = Inr [KeyBindCall 3 10 50] \<and>
   map_sum id (\<lambda>(r, w, log). map te_call log)
     (input_handle_key_down_bind (logged demo_app) 65 demo_state (0, [])) =
     Inr [KeyBindCall 1 65 53, KeyBindCall 1 65 54] \<and>
   map_sum id (\<lambda>(r, w, log). map te_call log)
     (input_handle_key_down_bind (logged demo_app) 67 demo_state (0, [])) = Inr [] \<and>
   map_sum id (\<lambda>(r, w, log). map te_call log)
     (input_handle_mouse_move_bind (logged demo_app) 10 10 demo_state (0, [])) =
     Inr [MouseBindCall 1 MOUSE_NONE 10 10 95] \<and>
   map_sum id (\<lambda>(r, w, log). map te_call log)
     (input_handle_mouse_move_bind (logged demo_app) 11 5 demo_state (0, [])) = Inr [] \<and>
   map_sum id (\<lambda>(r, w, log). map te_call log)
     (input_handle_mouse_up_bind (logged demo_app) 1 0 5 demo_state (0, [])) =
     Inr [MouseBindCall 1 1 0 5 70, MouseBindCall 2 1 0 5 80] \<and>
   map_sum id (\<lambda>(r, w, log). map te_call log)
     (input_handle_mouse_up_bind (logged demo_app) 2 5 5 demo_state (0, [])) = Inr [] \<and>
   (case input_add_mouse_bind MOUSE_NONE demo_rect 3 33 BIND_MOVE demo_state of
      (bind, s1) \<Rightarrow>
        bindE (run_script [SetMousebindButton bind 5, SetMousebindParam 10 7,
                           RemoveKeyBindFromList 65 1 BIND_KEYDOWN, MoveCursor 1 1] s1) (\<lambda>s2.
        bindE (input_handle_mouse_move_bind (logged demo_app) 5 5 s2 (0, [])) (\<lambda>(r, w, log).
          Inr (bind, map te_call log)))) =
     Inr (11, [MouseBindCall 1 MOUSE_NONE 5 5 7, MouseBindCall 3 MOUSE_NONE 5 5 33]) \<and>
   (case input_add_key_bind 70 3 44 BIND_KEYUP demo_state of
      (bind, s1) \<Rightarrow>
        bindE (run_script [RemoveKeyBind 2, BlockKeys True, AddHook 1 4] s1) (\<lambda>s2.
        bindE (input_handle_key_up_bind (logged demo_app) 70 s2 (0, [])) (\<lambda>(r, w, log).
          Inr (bind, map te_call log)))) =
     Inr (11, [KeyBindCall 3 70 44])"
  using bind_selectors_and_userdata [OF wf_demo_state init_demo_state,
      where app = demo_app and key = 65 and w = 0 and button = 1 and x = 0 and y = 5
        and rkey = 70 and rfunc = 3 and rdata = 44 and ktype = BIND_KEYUP
        and rbutton = MOUSE_NONE and area = demo_rect and mfunc = 3 and mdata = 33
        and mtype = BIND_MOVE and cs = "[]"]
    wf_demo_state
  by (simp add: input_handle_char_bind_def input_handle_key_down_bind_def
      input_handle_key_up_bind_def
      input_handle_mouse_move_bind_def input_handle_mouse_up_bind_def demo_state_def
      demo_key_heap_def demo_mouse_heap_def demo_rect_def rect_is_point_in_def logged_def
      demo_app_def input_add_mouse_bind_def input_add_key_bind_def mem_alloc_clean_def
      list_push_def mouse_bindlist_def mouse_bindlist_update_def key_bindlist_def
      key_bindlist_update_def bindE_def input_set_mousebind_button_def
      input_set_mousebind_param_def input_remove_key_bind_from_list_def
      input_remove_key_bind_def input_block_keys_def input_add_hook_def NUM_INPUT_EVENTS_def
      NULL_def)

subsection \<open>Calls on the uninitialized library\<close>

text \<open>
  Claim C8 says that every removal call is a no-op while the library is uninitialized.
  The handle a registration returns in that state is \<open>NULL\<close>, and \<open>input_remove_key_bind\<close>
  and \<open>input_remove_mouse_bind\<close> read the record behind the handle before they reach the
  test of \<open>input_initialized\<close>.
\<close>

theorem uninitialized_remove_by_handle:
  "\<not> input_initialized (initial_state n) \<and>
   input_add_key_down_bind key func data (initial_state n) = (NULL, initial_state n) \<and>
   input_add_mouse_move_bind area mfunc mdata (initial_state n) = (NULL, initial_state n) \<and>
   input_remove_key_bind (fst (input_add_key_down_bind key func data (initial_state n)))
     (initial_state n) = Inl NullDeref \<and>
   input_remove_mouse_bind (fst (input_add_mouse_move_bind area mfunc mdata (initial_state n)))
     (initial_state n) = Inl NullDeref"
  by (simp add: initial_state_def input_add_key_down_bind_def input_add_key_bind_def
      input_add_mouse_move_bind_def input_add_mouse_bind_def input_remove_key_bind_def
      input_remove_mouse_bind_def)

subsection \<open>Null handles\<close>

text \<open>
  Claim C9. Every public operation called with a null handle or null pointer is meant
  to be a silent no-op. \<open>input_initialize\<close> and the four mutators of a mouse bind are:
  they test the pointer first. \<open>input_remove_key_bind\<close> and \<open>input_remove_mouse_bind\<close>
  are not: they read the fields of the record behind the handle to build the arguments
  of the bulk removal, so a null handle is dereferenced.
\<close>

theorem null_handle_calls:
  "input_initialize NULL s = s \<and>
   input_set_mousebind_button NULL button s = Inr s \<and>
   input_set_mousebind_rect NULL area s = Inr s \<and>
   input_set_mousebind_func NULL func s = Inr s \<and>
   input_set_mousebind_param NULL data s = Inr s \<and>
   input_remove_key_bind NULL s = Inl NullDeref \<and>
   input_remove_mouse_bind NULL s = Inl NullDeref"
  by (simp add: input_initialize_def input_set_mousebind_button_def input_set_mousebind_rect_def
      input_set_mousebind_func_def input_set_mousebind_param_def input_remove_key_bind_def
      input_remove_mouse_bind_def)

subsection \<open>Flags across a restart\<close>

text \<open>
  Claim C10. Neither \<open>input_shutdown\<close> nor \<open>input_initialize\<close> writes the keyboard-block
  flag, the stored cursor position or the cursor-visibility flag: after a shutdown, and
  after a shutdown followed by an initialization, their values are the values before.
  A block set before the shutdown therefore still makes \<open>input_handle_keyboard_event\<close>
  return false after the restart, as soon as the event type has a hook again.
\<close>

theorem flags_survive_restart:
  assumes wf: "wf_state s"
  shows
    "block_keys (input_initialize window s) = block_keys s \<and>
     show_cursor (input_initialize window s) = show_cursor s \<and>
     mouse_x (input_initialize window s) = mouse_x s \<and>
     mouse_y (input_initialize window s) = mouse_y s \<and>
     (\<exists>s1. input_shutdown s = Inr s1 \<and>
        block_keys s1 = block_keys s \<and> show_cursor s1 = show_cursor s \<and>
        mouse_x s1 = mouse_x s \<and> mouse_y s1 = mouse_y s \<and>
        block_keys (input_initialize window s1) = block_keys s \<and>
        show_cursor (input_initialize window s1) = show_cursor s \<and>
        mouse_x (input_initialize window s1) = mouse_x s \<and>
        mouse_y (input_initialize window s1) = mouse_y s \<and>
        (block_keys s \<and> window \<noteq> NULL \<and> t < NUM_INPUT_EVENTS s \<longrightarrow>
           (\<exists>s3. input_add_hook t h (input_initialize window s1) = Inr s3 \<and>
              (\<exists>w'. input_handle_keyboard_event app t key s3 w = Inr (False, w')))))"
proof -
  from input_shutdown_returns [OF wf] obtain s1 where sh: "input_shutdown s = Inr s1" by blast
  note fr = input_shutdown_frame [OF sh]
  have last: "\<exists>s3. input_add_hook t h (input_initialize window s1) = Inr s3 \<and>
              (\<exists>w'. input_handle_keyboard_event app t key s3 w = Inr (False, w'))"
    if "block_keys s \<and> window \<noteq> NULL \<and> t < NUM_INPUT_EVENTS s"
    using that fr by (intro blocked_after_first_hook) simp_all
  show ?thesis
    using sh fr last by (simp add: input_initialize_frame)
qed

theorem flags_survive_restart_witness:
  "wf_state (input_block_keys True demo_state) \<and>
   map_sum id (\<lambda>s1. (input_initialized s1, block_keys s1, show_cursor s1, mouse_x s1, mouse_y s1))
     (input_shutdown (input_block_keys True demo_state)) = Inr (False, True, True, 3, 4) \<and>
   bindE (input_shutdown (input_block_keys True demo_state)) (\<lambda>s1.
     bindE (input_add_hook 0 1 (input_initialize 1 s1)) (\<lambda>s3.
       input_handle_keyboard_event demo_app 0 65 s3 0)) = Inr (False, 1)"
  using flags_survive_restart [OF wf_blocked_demo_state,
      where window = 1 and t = 0 and h = 1 and app = demo_app and key = 65 and w = 0]
    wf_blocked_demo_state
  by (simp add: input_shutdown_def input_cleanup_list_def bindE_def input_block_keys_def
      demo_state_def demo_key_heap_def demo_mouse_heap_def input_initialize_def NULL_def
      list_create_def list_push_def input_add_hook_def NUM_INPUT_EVENTS_def
      input_handle_keyboard_event_def demo_app_def)

end
